theory Spec2Isabelle
  imports Complex_Main "HOL-Library.Log_Nat"
begin

section \<open>Python numerics and slices used by the renderer\<close>

text \<open>
  The renderer (\<^verbatim>\<open>src/vardbg/output/video_writer/renderer.py\<close>) mixes Python
  integers and floats. Integers are modelled as \<^typ>\<open>int\<close>. A float is a double; it is
  modelled by the rational number it denotes (\<^typ>\<open>rat\<close>), and every float operation
  rounds its exact result to the nearest double with \<open>fl\<close> below, as the hardware does.
  A fractional value of the configuration is the double it holds: the literal
  \<^verbatim>\<open>1.1\<close> is \<open>fl (11 / 10)\<close>.
\<close>

text \<open>Python 3 \<^verbatim>\<open>round(x)\<close>: nearest integer, a tie goes to the even neighbour.\<close>

definition py_round :: "rat \<Rightarrow> int" where
  "py_round x =
     (let f = \<lfloor>x\<rfloor>; d = x - of_int f
      in if d < 1 / 2 then f
         else if 1 / 2 < d then f + 1
         else if even f then f else f + 1)"

text \<open>
  The exponent of a non-zero rational: the \<open>e\<close> with \<open>2 ^ e \<le> \<bar>x\<bar> < 2 ^ (e + 1)\<close>,
  found from the bit lengths of numerator and denominator.
\<close>

definition expo :: "rat \<Rightarrow> int" where
  "expo x =
     (case quotient_of \<bar>x\<bar> of
        (p, q) \<Rightarrow>
          (let d = bitlen p - bitlen q
           in if 2 powi d \<le> \<bar>x\<bar> then d else d - 1))"

text \<open>
  Rounding to the nearest double: 53 significant bits, a tie goes to the even
  significand. The exponent range is not bounded, so results below \<open>2 ^ -1022\<close> or
  above \<open>2 ^ 1024\<close> in magnitude, where doubles lose precision or overflow, are outside
  the model.
\<close>

definition fl :: "rat \<Rightarrow> rat" where
  "fl x =
     (if x = 0 then 0
      else let u = 2 powi (expo x - 52)
           in of_int (py_round (x / u)) * u)"

text \<open>Python \<^verbatim>\<open>int(x)\<close> on a float: truncation towards zero.\<close>

definition py_int :: "rat \<Rightarrow> int" where
  "py_int x = (if 0 \<le> x then \<lfloor>x\<rfloor> else \<lceil>x\<rceil>)"

text \<open>
  A bound of a Python slice over a list of length \<open>n\<close>: a negative bound counts from
  the end, and every bound is clipped into \<open>0..n\<close>.
\<close>

definition slice_bound :: "int \<Rightarrow> int \<Rightarrow> int" where
  "slice_bound n i = (if i < 0 then max (i + n) 0 else min i n)"

text \<open>\<^verbatim>\<open>xs[start:stop]\<close>\<close>

definition py_slice :: "'a list \<Rightarrow> int \<Rightarrow> int \<Rightarrow> 'a list" where
  "py_slice xs start stop =
     (let n = int (length xs);
          lo = slice_bound n start;
          hi = slice_bound n stop
      in take (nat (hi - lo)) (drop (nat lo) xs))"

text \<open>\<^verbatim>\<open>xs[start:]\<close>\<close>

definition py_slice_from :: "'a list \<Rightarrow> int \<Rightarrow> 'a list" where
  "py_slice_from xs start = drop (nat (slice_bound (int (length xs)) start)) xs"

text \<open>\<^verbatim>\<open>sep.join(xs)\<close>\<close>

fun join :: "string \<Rightarrow> string list \<Rightarrow> string" where
  "join sep [] = []"
| "join sep [x] = x"
| "join sep (x # y # ys) = x @ sep @ join sep (y # ys)"

section \<open>The code viewport of \<^verbatim>\<open>draw_code\<close>\<close>

text \<open>
  \<^verbatim>\<open>hlines = [(line, i == cur_idx) for i, line in enumerate(lines)]\<close>
\<close>

definition hlines :: "'a list \<Rightarrow> int \<Rightarrow> ('a \<times> bool) list" where
  "hlines lines cur_idx = map (\<lambda>(i, line). (line, int i = cur_idx)) (enumerate 0 lines)"

text \<open>
  The start and end display indexes before the adjustment at the beginning of the file.
  The first argument is the unrounded row count \<^verbatim>\<open>self._body_rows\<close>.
\<close>

definition naive_bounds :: "rat \<Rightarrow> int \<Rightarrow> int \<times> int" where
  "naive_bounds rows_f cur_idx =
     (let ctx_side_lines = fl (fl (rows_f - 1) / 2)
      in (py_round (fl (of_int cur_idx - ctx_side_lines)),
          py_round (fl (of_int cur_idx + ctx_side_lines))))"

text \<open>
  \<^verbatim>\<open>if start_idx < 0: start_extra = abs(start_idx); end_idx += start_extra; start_idx = 0\<close>
\<close>

definition window_bounds :: "rat \<Rightarrow> int \<Rightarrow> int \<times> int" where
  "window_bounds rows_f cur_idx =
     (case naive_bounds rows_f cur_idx of
        (start_idx, end_idx) \<Rightarrow>
          if start_idx < 0 then (0, end_idx + \<bar>start_idx\<bar>) else (start_idx, end_idx))"

text \<open>\<^verbatim>\<open>display_lines = hlines[start_idx:end_idx]\<close>, for the 1-based \<open>cur_line\<close>.\<close>

definition display_lines :: "rat \<Rightarrow> 'a list \<Rightarrow> int \<Rightarrow> ('a \<times> bool) list" where
  "display_lines rows_f lines cur_line =
     (let cur_idx = cur_line - 1
      in case window_bounds rows_f cur_idx of
           (start_idx, end_idx) \<Rightarrow> py_slice (hlines lines cur_idx) start_idx end_idx)"

section \<open>Data of the renderer\<close>

type_synonym pos = "rat \<times> rat"

text \<open>Colours of the configuration and traced Python values are opaque to the renderer.\<close>

type_synonym color = string
type_synonym pyvalue = string
type_synonym token = string

datatype font = BodyFont | BodyBoldFont | CaptionFont | HeadFont | IntroFont

datatype error = ValueError string | ZeroDivisionError | TypeError | AttributeError | KeyError

text \<open>
  Modelled from the spec: the class \<^verbatim>\<open>Config\<close> (module \<^verbatim>\<open>config\<close>), which the
  renderer imports, "a read-only bag of named values". The record holds the attributes of
  \<^verbatim>\<open>self.cfg\<close> that the renderer reads. Pixel quantities are integers; the frame rate,
  the line-height factor and the intro time may be fractional. \<^verbatim>\<open>intro_text\<close> may be
  absent (\<^verbatim>\<open>None\<close>).
\<close>

record config =
  cfg_fps :: rat
  cfg_w :: int
  cfg_h :: int
  cfg_var_x :: int
  cfg_out_y :: int
  cfg_ovar_y :: int
  cfg_sect_padding :: int
  cfg_head_padding :: int
  cfg_line_height :: rat
  cfg_intro_text :: "string option"
  cfg_intro_time :: rat
  cfg_watermark :: bool
  cfg_bg :: color
  cfg_fg_body :: color
  cfg_fg_heading :: color
  cfg_fg_watermark :: color
  cfg_highlight :: color
  cfg_red :: color
  cfg_green :: color
  cfg_blue :: color

text \<open>
  Modelled from the spec: \<^verbatim>\<open>TextPainter\<close> (module \<^verbatim>\<open>text_painter\<close>), the "stateful
  cursor confined to a column/row box", and \<^verbatim>\<open>irepr\<close> (module \<^verbatim>\<open>text_format\<close>), the
  value formatter that writes through it. What the renderer asks of them is recorded as
  it is asked: \<^verbatim>\<open>write(text, bold, color, bg_color)\<close>, \<^verbatim>\<open>new_line()\<close> and
  \<^verbatim>\<open>irepr(painter, obj, highlight, bold, color)\<close>. How the text is wrapped and where
  the cursor ends is left to the functions of \<open>env\<close> below.
\<close>

datatype pwrite =
    PWrite string bool "color option" "color option"
  | PNewLine
  | PIRepr pyvalue "pyvalue option" bool "color option"

text \<open>
  The box a painter is constructed with: start position, columns, rows and the two
  keyword arguments (\<open>None\<close> when the call leaves them at their defaults).
\<close>

record tp_box =
  tp_x :: rat
  tp_y :: rat
  tp_cols :: int
  tp_rows :: int
  tp_x_end :: "rat option"
  tp_show_truncate :: "bool option"

text \<open>
  A frame is the list of drawing requests made on a fresh image of the configured size
  and background colour, in the order they were made.
\<close>

datatype draw_op =
    DrawLine "pos list" color int
  | DrawText pos string font "color option"
  | Painted tp_box pwrite

type_synonym canvas = "draw_op list"

datatype encoder_kind =
    OpenCVEncoder string string rat int int
  | GIFEncoder string rat
  | WebPEncoder string rat

text \<open>
  Modelled from the spec: the encoders (modules \<^verbatim>\<open>opencv_encoder\<close>, \<^verbatim>\<open>gif_encoder\<close>
  and \<^verbatim>\<open>webp_encoder\<close>), opaque sinks with \<^verbatim>\<open>write(canvas)\<close> and \<^verbatim>\<open>stop()\<close>. An
  encoder is the constructor call that made it, the frames handed to \<^verbatim>\<open>write\<close> in
  order, and the number of \<^verbatim>\<open>stop\<close> calls.
\<close>

record encoder =
  enc_kind :: encoder_kind
  enc_written :: "canvas list"
  enc_stopped :: nat

record sizes =
  line_height :: rat
  body_cols :: int
  body_rows_f :: rat
  body_rows :: int
  out_x :: int
  out_y :: int
  out_cols :: int
  out_rows :: int
  vars_x :: int
  vars_y :: int
  vars_cols :: int
  vars_rows :: int
  ovars_x :: int
  ovars_y :: int
  ovars_cols :: int
  ovars_rows :: int

text \<open>
  The state of a \<^verbatim>\<open>FrameRenderer\<close>. \<open>sizes\<close> is \<open>None\<close> until
  \<^verbatim>\<open>sizes_populated\<close> is set; \<open>frame\<close> stands for \<^verbatim>\<open>self.frame\<close> together
  with its drawing context \<^verbatim>\<open>self.draw\<close>, which are always assigned together.
\<close>

record renderer =
  cfg :: config
  encoder :: encoder
  sizes :: "sizes option"
  last_var :: "pos option"
  ref_var :: "pos option"
  frame :: "canvas option"

record history =
  hist_ignored :: bool
  hist_values :: "pyvalue list"

record var_state =
  vs_name :: string
  vs_action :: string
  vs_color :: color
  vs_text :: string
  vs_value :: pyvalue
  vs_ref :: "string option"
  vs_other_history :: "(string \<times> history) list"

text \<open>
  The collaborators outside the renderer: the text measurement of the imaging library,
  the position a painter reports after the writes made so far, the position the value
  formatter reports for the highlighted part, and the style table that
  \<^verbatim>\<open>load_style(MonokaiStyle)\<close> yields.
\<close>

record env =
  textsize :: "font \<Rightarrow> string \<Rightarrow> int \<times> int"
  painter_pos :: "tp_box \<Rightarrow> pwrite list \<Rightarrow> pos"
  irepr_pos :: "tp_box \<Rightarrow> pwrite list \<Rightarrow> pos"
  styles :: "token \<Rightarrow> (color option \<times> bool) option"

definition and_then :: "error + 'a \<Rightarrow> ('a \<Rightarrow> error + 'b) \<Rightarrow> error + 'b" where
  "and_then m f = (case m of Inl e \<Rightarrow> Inl e | Inr a \<Rightarrow> f a)"

section \<open>Geometry: \<^verbatim>\<open>calc_sizes\<close>\<close>

text \<open>
  Division by a zero glyph width or a zero line height raises
  \<^verbatim>\<open>ZeroDivisionError\<close>. \<^verbatim>\<open>/\<close> is true division, \<^verbatim>\<open>//\<close> is floor
  division; \<open>body_cols\<close> and \<open>out_rows\<close> go through \<^verbatim>\<open>round\<close>, the other row
  counts through \<^verbatim>\<open>int\<close>. The line height and every quotient by it are doubles.
  The quotient for \<open>body_cols\<close> has two integer operands: rounding its nearest double
  gives the same integer as rounding the exact quotient while the operands stay below
  \<open>2 ^ 52\<close>, so it is taken exactly.
\<close>

definition calc_sizes :: "env \<Rightarrow> config \<Rightarrow> error + sizes" where
  "calc_sizes ev c =
     (case textsize ev BodyFont ''A'' of (w, h) \<Rightarrow>
      case textsize ev HeadFont ''A'' of (hw, hh) \<Rightarrow>
      case textsize ev BodyFont [CHR 0x60, CHR 0x5E, CHR ''A'', CHR ''g''] of (mw, mh) \<Rightarrow>
      case textsize ev CaptionFont ''1p'' of (cw, ch) \<Rightarrow>
        let lh = fl (of_int mh * cfg_line_height c);
            oy = cfg_out_y c + cfg_head_padding c * 2 + hh;
            vx = cfg_var_x c + cfg_sect_padding c;
            vy = cfg_head_padding c * 2 + hh;
            ovars_h = cfg_h c - cfg_ovar_y c
        in if w = 0 \<or> lh = 0 then Inl ZeroDivisionError
           else Inr \<lparr>
             line_height = lh,
             body_cols = py_round (of_int (cfg_var_x c - cfg_sect_padding c * 2) / of_int w),
             body_rows_f = fl (of_int (cfg_out_y c - cfg_sect_padding c * 2 - ch) / lh),
             body_rows = py_int (fl (of_int (cfg_out_y c - cfg_sect_padding c * 2 - ch) / lh)),
             out_x = cfg_sect_padding c,
             out_y = oy,
             out_cols = py_round (of_int (cfg_var_x c - cfg_sect_padding c * 2) / of_int w),
             out_rows = py_round (fl (of_int (cfg_h c - oy) / lh)),
             vars_x = vx,
             vars_y = vy,
             vars_cols = (cfg_w c - cfg_var_x c - cfg_sect_padding c * 2) div w,
             vars_rows = py_int (fl (of_int (cfg_ovar_y c - cfg_head_padding c * 2 - hh) / lh)),
             ovars_x = vx,
             ovars_y = cfg_ovar_y c + vy,
             ovars_cols = (cfg_w c - cfg_var_x c - cfg_sect_padding c * 2) div w,
             ovars_rows = py_int (fl (of_int (ovars_h - cfg_sect_padding c * 2) / lh)) \<rparr>)"

section \<open>Drawing on the current frame\<close>

definition get_color :: "config \<Rightarrow> int \<Rightarrow> color" where
  "get_color c col = (if col = 0 then cfg_red c else if col = 1 then cfg_green c else cfg_blue c)"

text \<open>A request on \<^verbatim>\<open>self.draw\<close>; without a frame there is no drawing context.\<close>

definition draw_on :: "draw_op \<Rightarrow> renderer \<Rightarrow> error + renderer" where
  "draw_on op r =
     (case frame r of
        None \<Rightarrow> Inl AttributeError
      | Some cv \<Rightarrow> Inr (r\<lparr>frame := Some (cv @ [op])\<rparr>))"

text \<open>
  A painter draws on the current frame as it writes. Nothing else draws while a painter
  is in use, so its requests are collected in order and put on the frame together.
\<close>

definition paint :: "tp_box \<Rightarrow> pwrite list \<Rightarrow> renderer \<Rightarrow> error + renderer" where
  "paint box ws r =
     (if ws = [] then Inr r
      else case frame r of
             None \<Rightarrow> Inl AttributeError
           | Some cv \<Rightarrow> Inr (r\<lparr>frame := Some (cv @ map (Painted box) ws)\<rparr>))"

text \<open>The text request of \<^verbatim>\<open>draw_text_center\<close>.\<close>

definition centered_text :: "env \<Rightarrow> rat \<Rightarrow> rat \<Rightarrow> string \<Rightarrow> font \<Rightarrow> color \<Rightarrow> draw_op" where
  "centered_text ev x y txt fnt col =
     (case textsize ev fnt txt of
        (w, h) \<Rightarrow> DrawText (x - of_int w / 2, y - of_int h / 2) txt fnt (Some col))"

definition draw_text_center ::
  "env \<Rightarrow> rat \<Rightarrow> rat \<Rightarrow> string \<Rightarrow> font \<Rightarrow> color \<Rightarrow> renderer \<Rightarrow> error + renderer" where
  "draw_text_center ev x y txt fnt col r = draw_on (centered_text ev x y txt fnt col) r"

definition new_frame :: "renderer \<Rightarrow> renderer" where
  "new_frame r = r\<lparr>frame := Some []\<rparr>"

definition start_frame :: "env \<Rightarrow> renderer \<Rightarrow> error + renderer" where
  "start_frame ev r0 =
     (let c = cfg r0;
          var_center_x = of_int (cfg_var_x c) + of_int (cfg_w c - cfg_var_x c) / 2
      in
      and_then (draw_on (DrawLine [(0, of_int (cfg_out_y c)), (of_int (cfg_var_x c), of_int (cfg_out_y c))]
                  (cfg_fg_body c) 1) (new_frame r0)) (\<lambda>r1.
      and_then (draw_text_center ev (of_int (cfg_var_x c) / 2) (of_int (cfg_out_y c + cfg_head_padding c))
                  ''Output'' HeadFont (cfg_fg_heading c) r1) (\<lambda>r2.
      and_then (draw_on (DrawLine [(of_int (cfg_var_x c), 0), (of_int (cfg_var_x c), of_int (cfg_h c))]
                  (cfg_fg_body c) 1) r2) (\<lambda>r3.
      and_then (draw_text_center ev var_center_x (of_int (cfg_head_padding c))
                  ''Last Variable'' HeadFont (cfg_fg_heading c) r3) (\<lambda>r4.
      and_then (draw_on (DrawLine [(of_int (cfg_var_x c), of_int (cfg_ovar_y c)), (of_int (cfg_w c), of_int (cfg_ovar_y c))]
                  (cfg_fg_body c) 1) r4) (\<lambda>r5.
      and_then (draw_text_center ev var_center_x (of_int (cfg_ovar_y c + cfg_head_padding c))
                  ''Other Variables'' HeadFont (cfg_fg_heading c) r5) (\<lambda>r6.
      if sizes r6 = None
      then and_then (calc_sizes ev c) (\<lambda>s. Inr (r6\<lparr>sizes := Some s\<rparr>))
      else Inr r6)))))))"

section \<open>The variable panels\<close>

text \<open>
  The text written before each value: a line break, four spaces, the bullet character
  U+2022 (here as its three UTF-8 bytes) and a space.
\<close>

definition bullet :: string where
  "bullet = [CHR 0x0A] @ ''    '' @ [CHR 0xE2, CHR 0x80, CHR 0xA2] @ '' ''"

definition separator :: string where
  "separator = [CHR 0x0A, CHR 0x0A]"

text \<open>
  The inner loop of \<^verbatim>\<open>draw_other_vars\<close> over \<^verbatim>\<open>enumerate(values)\<close>. The state
  threaded through is the list of painter requests so far and \<^verbatim>\<open>self.ref_var_x/y\<close>.
  \<open>n\<close> is \<^verbatim>\<open>len(values)\<close>, so \<^verbatim>\<open>v_idx == len(values) - 1\<close> reads
  \<open>Suc v_idx = n\<close>.
\<close>

fun values_loop ::
  "env \<Rightarrow> tp_box \<Rightarrow> var_state \<Rightarrow> string \<Rightarrow> nat \<Rightarrow> (nat \<times> pyvalue) list
     \<Rightarrow> pwrite list \<times> pos option \<Rightarrow> pwrite list \<times> pos option" where
  "values_loop ev box st var n [] acc = acc"
| "values_loop ev box st var n ((v_idx, v) # rest) (ws, rv) =
     (let ws1 = ws @ [PWrite bullet False None None]
      in if Some var = vs_ref st \<and> Suc v_idx = n
         then let ws2 = ws1 @ [PIRepr v (Some (vs_value st)) True (Some (vs_color st))]
              in values_loop ev box st var n rest (ws2, Some (irepr_pos ev box ws2))
         else values_loop ev box st var n rest (ws1 @ [PIRepr v None False None], rv))"

text \<open>The outer loop over \<^verbatim>\<open>enumerate(state.other_history)\<close>.\<close>

fun other_vars_loop ::
  "env \<Rightarrow> tp_box \<Rightarrow> var_state \<Rightarrow> (nat \<times> string \<times> history) list
     \<Rightarrow> pwrite list \<times> pos option \<Rightarrow> pwrite list \<times> pos option" where
  "other_vars_loop ev box st [] acc = acc"
| "other_vars_loop ev box st ((idx, var, vals) # rest) (ws, rv) =
     (if hist_ignored vals then other_vars_loop ev box st rest (ws, rv)
      else
        let ws1 = (if 0 < idx then ws @ [PWrite separator False None None] else ws);
            ws2 = ws1 @ [PWrite (var @ '':'') False None None]
        in other_vars_loop ev box st rest
             (values_loop ev box st var (length (hist_values vals))
                (enumerate 0 (hist_values vals)) (ws2, rv)))"

text \<open>
  Whether the pass over \<^verbatim>\<open>other_history\<close> reaches the highlighted branch, which is the
  only place where the referenced-value position is assigned: some variable that is not
  ignored carries the name \<^verbatim>\<open>state.ref\<close> and has at least one value.
\<close>

definition ref_captured :: "var_state \<Rightarrow> bool" where
  "ref_captured st =
     list_ex (\<lambda>(var, vals). \<not> hist_ignored vals \<and> Some var = vs_ref st \<and> hist_values vals \<noteq> [])
       (vs_other_history st)"

text \<open>The same condition on one entry of \<^verbatim>\<open>enumerate(state.other_history)\<close>.\<close>

definition captures :: "var_state \<Rightarrow> nat \<times> string \<times> history \<Rightarrow> bool" where
  "captures st e =
     (case e of
        (idx, var, vals) \<Rightarrow> \<not> hist_ignored vals \<and> Some var = vs_ref st \<and> hist_values vals \<noteq> [])"

definition ovars_box :: "sizes \<Rightarrow> tp_box" where
  "ovars_box s = \<lparr>tp_x = of_int (ovars_x s), tp_y = of_int (ovars_y s),
     tp_cols = ovars_cols s, tp_rows = ovars_rows s, tp_x_end = None, tp_show_truncate = None\<rparr>"

definition vars_box :: "sizes \<Rightarrow> tp_box" where
  "vars_box s = \<lparr>tp_x = of_int (vars_x s), tp_y = of_int (vars_y s),
     tp_cols = vars_cols s, tp_rows = vars_rows s, tp_x_end = None, tp_show_truncate = None\<rparr>"

text \<open>
  Before the sizes are calculated the painter would be built from \<^verbatim>\<open>None\<close>
  coordinates; this is taken to fail with \<^verbatim>\<open>TypeError\<close>.
\<close>

definition draw_other_vars :: "env \<Rightarrow> var_state \<Rightarrow> renderer \<Rightarrow> error + renderer" where
  "draw_other_vars ev st r =
     (case sizes r of
        None \<Rightarrow> Inl TypeError
      | Some s \<Rightarrow>
          (case other_vars_loop ev (ovars_box s) st (enumerate 0 (vs_other_history st)) ([], ref_var r) of
             (ws, rv) \<Rightarrow> paint (ovars_box s) ws (r\<lparr>ref_var := rv\<rparr>)))"

definition last_var_writes :: "var_state \<Rightarrow> pwrite list" where
  "last_var_writes st =
     [PWrite (vs_name st @ '' '') False None None,
      PWrite (vs_action st @ '' '') True (Some (vs_color st)) None]"

text \<open>What the two painters of \<^verbatim>\<open>draw_variables\<close> put on the frame.\<close>

definition painted_vars :: "sizes \<Rightarrow> var_state \<Rightarrow> pwrite list \<Rightarrow> canvas" where
  "painted_vars s st ws =
     map (Painted (ovars_box s)) ws
       @ map (Painted (vars_box s)) (last_var_writes st @ [PNewLine, PWrite (vs_text st) False None None])"

definition draw_last_var :: "env \<Rightarrow> var_state \<Rightarrow> renderer \<Rightarrow> error + renderer" where
  "draw_last_var ev st r =
     (case sizes r of
        None \<Rightarrow> Inl TypeError
      | Some s \<Rightarrow>
          paint (vars_box s)
            (last_var_writes st @ [PNewLine, PWrite (vs_text st) False None None])
            (r\<lparr>last_var := Some (painter_pos ev (vars_box s) (last_var_writes st))\<rparr>))"

text \<open>
  The connector. \<^verbatim>\<open>max\<close> and the arithmetic on an anchor that is still
  \<^verbatim>\<open>None\<close> raise \<^verbatim>\<open>TypeError\<close>.
\<close>

definition connector :: "env \<Rightarrow> config \<Rightarrow> color \<Rightarrow> pos \<Rightarrow> pos \<Rightarrow> draw_op" where
  "connector ev c col src dst =
     (case (src, dst) of
        ((lx, ly), (rx, ry)) \<Rightarrow>
          (let right_line_x = min (fl (max lx rx + of_int (cfg_sect_padding c)))
                                  (fl (of_int (cfg_w c) - fl (of_int (cfg_sect_padding c) / 2)))
           in case textsize ev BodyFont '' '' of
                (sw, sh) \<Rightarrow>
                  DrawLine [(lx, ly), (right_line_x, ly), (right_line_x, fl (ry - of_int sh)),
                            (rx, fl (ry - of_int sh)), (rx, ry)] col 2))"

definition draw_var_ref :: "env \<Rightarrow> var_state \<Rightarrow> renderer \<Rightarrow> error + renderer" where
  "draw_var_ref ev st r =
     (case (last_var r, ref_var r) of
        (Some src, Some dst) \<Rightarrow> draw_on (connector ev (cfg r) (vs_color st) src dst) r
      | _ \<Rightarrow> Inl TypeError)"

definition draw_variables :: "env \<Rightarrow> var_state \<Rightarrow> renderer \<Rightarrow> error + renderer" where
  "draw_variables ev st r =
     and_then (draw_other_vars ev st r) (\<lambda>r1.
     and_then (draw_last_var ev st r1) (\<lambda>r2.
     if vs_ref st \<noteq> None then draw_var_ref ev st r2 else Inr r2))"

section \<open>Finishing frames\<close>

definition WATERMARK :: string where
  "WATERMARK = ''Generated by vardbg''"

definition watermark_op :: "env \<Rightarrow> config \<Rightarrow> draw_op" where
  "watermark_op ev c =
     (case textsize ev CaptionFont WATERMARK of
        (w, h) \<Rightarrow>
          DrawText (of_int (cfg_w c - cfg_sect_padding c - w), of_int (cfg_h c - cfg_sect_padding c - h))
            WATERMARK CaptionFont (Some (cfg_fg_watermark c)))"

definition draw_watermark :: "env \<Rightarrow> renderer \<Rightarrow> error + renderer" where
  "draw_watermark ev r = draw_on (watermark_op ev (cfg r)) r"

text \<open>\<^verbatim>\<open>self.encoder.write(self.frame)\<close>: the encoder receives the frame as it is now.\<close>

definition encoder_write :: "renderer \<Rightarrow> error + renderer" where
  "encoder_write r =
     (case frame r of
        None \<Rightarrow> Inl TypeError
      | Some cv \<Rightarrow> Inr (r\<lparr>encoder := (encoder r)\<lparr>enc_written := enc_written (encoder r) @ [cv]\<rparr>\<rparr>))"

definition finish_frame :: "env \<Rightarrow> var_state option \<Rightarrow> renderer \<Rightarrow> error + renderer" where
  "finish_frame ev var_state r =
     (case frame r of
        None \<Rightarrow> Inr r
      | Some cv \<Rightarrow>
          and_then (case var_state of None \<Rightarrow> Inr r | Some st \<Rightarrow> draw_variables ev st r) (\<lambda>r1.
          and_then (if cfg_watermark (cfg r1) then draw_watermark ev r1 else Inr r1) (\<lambda>r2.
          encoder_write r2)))"

definition close :: "env \<Rightarrow> var_state option \<Rightarrow> renderer \<Rightarrow> error + renderer" where
  "close ev var_state r =
     and_then (finish_frame ev var_state r) (\<lambda>r1.
     Inr (r1\<lparr>encoder := (encoder r1)\<lparr>enc_stopped := Suc (enc_stopped (encoder r1))\<rparr>\<rparr>))"

section \<open>The intro\<close>

text \<open>One pass of the loop body of \<^verbatim>\<open>write_intro\<close>.\<close>

definition intro_frame :: "env \<Rightarrow> renderer \<Rightarrow> error + renderer" where
  "intro_frame ev r =
     (case cfg_intro_text (cfg r) of
        None \<Rightarrow> Inl TypeError
      | Some txt \<Rightarrow>
          and_then (draw_text_center ev (of_int (cfg_w (cfg r)) / 2) (of_int (cfg_h (cfg r)) / 2)
                      txt IntroFont (cfg_fg_heading (cfg r)) (new_frame r))
                   (finish_frame ev None))"

text \<open>
  What an intro frame holds when it is handed to the encoder: the centred title, and
  the watermark if that is enabled.
\<close>

definition intro_canvas :: "env \<Rightarrow> config \<Rightarrow> string \<Rightarrow> canvas" where
  "intro_canvas ev c txt =
     centered_text ev (of_int (cfg_w c) / 2) (of_int (cfg_h c) / 2) txt IntroFont (cfg_fg_heading c)
       # (if cfg_watermark c then [watermark_op ev c] else [])"

text \<open>\<^verbatim>\<open>for _ in range(frames)\<close>\<close>

fun intro_frames :: "env \<Rightarrow> nat \<Rightarrow> renderer \<Rightarrow> error + renderer" where
  "intro_frames ev 0 r = Inr r"
| "intro_frames ev (Suc n) r = and_then (intro_frame ev r) (intro_frames ev n)"

text \<open>
  \<^verbatim>\<open>frames = round(self.cfg.intro_time * self.cfg.fps)\<close>: the product is rounded to a
  double before \<^verbatim>\<open>round\<close>. \<^verbatim>\<open>range\<close> of a non-positive number is empty.
\<close>

definition write_intro :: "env \<Rightarrow> renderer \<Rightarrow> error + renderer" where
  "write_intro ev r =
     intro_frames ev (nat (py_round (fl (cfg_intro_time (cfg r) * cfg_fps (cfg r))))) r"

section \<open>Code and output panels\<close>

text \<open>
  The writes for one displayed line: \<^verbatim>\<open>painter.write(text, bg_color=bg_color, **styles[token])\<close>
  for each token; a token without a style raises \<^verbatim>\<open>KeyError\<close>.
\<close>

fun line_writes :: "env \<Rightarrow> color option \<Rightarrow> (token \<times> string) list \<Rightarrow> error + pwrite list" where
  "line_writes ev bg [] = Inr []"
| "line_writes ev bg ((tok, txt) # rest) =
     (case styles ev tok of
        None \<Rightarrow> Inl KeyError
      | Some (col, bold) \<Rightarrow>
          and_then (line_writes ev bg rest) (\<lambda>ws. Inr (PWrite txt bold col bg # ws)))"

fun code_writes ::
  "env \<Rightarrow> color \<Rightarrow> ((token \<times> string) list \<times> bool) list \<Rightarrow> error + pwrite list" where
  "code_writes ev hl [] = Inr []"
| "code_writes ev hl ((toks, highlighted) # rest) =
     and_then (line_writes ev (if highlighted then Some hl else None) toks) (\<lambda>ws.
     and_then (code_writes ev hl rest) (\<lambda>ws'. Inr (ws @ ws')))"

definition code_box :: "config \<Rightarrow> sizes \<Rightarrow> tp_box" where
  "code_box c s = \<lparr>tp_x = of_int (cfg_sect_padding c),
     tp_y = fl (of_int (cfg_sect_padding c) + line_height s),
     tp_cols = body_cols s, tp_rows = body_rows s,
     tp_x_end = Some (of_int (cfg_var_x c - cfg_sect_padding c)),
     tp_show_truncate = Some False\<rparr>"

definition draw_code ::
  "env \<Rightarrow> (token \<times> string) list list \<Rightarrow> int \<Rightarrow> renderer \<Rightarrow> error + renderer" where
  "draw_code ev lines cur_line r =
     (case sizes r of
        None \<Rightarrow> Inl TypeError
      | Some s \<Rightarrow>
          and_then (code_writes ev (cfg_highlight (cfg r)) (display_lines (body_rows_f s) lines cur_line))
            (\<lambda>ws. paint (code_box (cfg r) s) ws r))"

text \<open>\<^verbatim>\<open>lines[-self.out_rows :]\<close>\<close>

definition output_lines :: "int \<Rightarrow> string list \<Rightarrow> string list" where
  "output_lines rows lines = py_slice_from lines (- rows)"

definition out_box :: "sizes \<Rightarrow> tp_box" where
  "out_box s = \<lparr>tp_x = of_int (out_x s), tp_y = of_int (out_y s),
     tp_cols = out_cols s, tp_rows = out_rows s, tp_x_end = None, tp_show_truncate = None\<rparr>"

definition draw_output :: "env \<Rightarrow> string list \<Rightarrow> renderer \<Rightarrow> error + renderer" where
  "draw_output ev lines r =
     (case sizes r of
        None \<Rightarrow> Inl TypeError
      | Some s \<Rightarrow>
          paint (out_box s)
            [PWrite (join [CHR 0x0A] (output_lines (out_rows s) lines)) False None None] r)"

section \<open>Construction\<close>

text \<open>\<^verbatim>\<open>str.split(sep)\<close> for a one-character separator.\<close>

fun split_on :: "char \<Rightarrow> string \<Rightarrow> string list" where
  "split_on sep [] = [[]]"
| "split_on sep (x # xs) =
     (if x = sep then [] # split_on sep xs
      else case split_on sep xs of
             [] \<Rightarrow> [[x]]
           | p # ps \<Rightarrow> (x # p) # ps)"

text \<open>
  \<^verbatim>\<open>Path(path).name\<close> for a POSIX path: the last component, where empty components
  and \<^verbatim>\<open>.\<close> components do not count; empty when there is none.
\<close>

definition path_name :: "string \<Rightarrow> string" where
  "path_name path =
     (case filter (\<lambda>p. p \<noteq> [] \<and> p \<noteq> ''.'') (split_on CHR ''/'' path) of
        [] \<Rightarrow> []
      | p # ps \<Rightarrow> last (p # ps))"

text \<open>
  \<^verbatim>\<open>Path(path).suffix\<close>: with \<open>i\<close> the position of the last dot of the name, the
  name from \<open>i\<close> on if \<open>0 < i < len(name) - 1\<close>, else empty.
\<close>

definition path_suffix :: "string \<Rightarrow> string" where
  "path_suffix path =
     (let name = path_name path;
          after = takeWhile (\<lambda>ch. ch \<noteq> CHR ''.'') (rev name);
          i = length name - length after - 1
      in if CHR ''.'' \<in> set name \<and> 0 < i \<and> after \<noteq> [] then drop i name else [])"

text \<open>
  \<^verbatim>\<open>str.lower()\<close> on the ASCII letters. A string is its bytes, and the bytes of any
  other character are left as they are; where \<^verbatim>\<open>str.lower()\<close> changes a letter
  outside ASCII, the model keeps it.
\<close>

definition lower_char :: "char \<Rightarrow> char" where
  "lower_char ch =
     (case map_of (zip ''ABCDEFGHIJKLMNOPQRSTUVWXYZ'' ''abcdefghijklmnopqrstuvwxyz'') ch of
        None \<Rightarrow> ch
      | Some l \<Rightarrow> l)"

definition lower :: "string \<Rightarrow> string" where
  "lower s = map lower_char s"

text \<open>\<^verbatim>\<open>ext = Path(path).suffix.lower()[1:]\<close>\<close>

definition ext_of :: "string \<Rightarrow> string" where
  "ext_of path = drop 1 (lower (path_suffix path))"

text \<open>Truth value of \<^verbatim>\<open>cfg.intro_text\<close>: \<^verbatim>\<open>None\<close> and the empty string are false.\<close>

definition truthy :: "string option \<Rightarrow> bool" where
  "truthy t = (case t of None \<Rightarrow> False | Some txt \<Rightarrow> txt \<noteq> [])"

definition unrecognized :: "string \<Rightarrow> string" where
  "unrecognized ext = ''Unrecognized file extension '' @ [CHR 0x27] @ ext @ [CHR 0x27]"

text \<open>
  \<^verbatim>\<open>FrameRenderer.__init__\<close>, given the configuration that \<^verbatim>\<open>Config(config_path)\<close>
  loaded. The encoder is chosen before anything else is set up.
\<close>

definition select_encoder :: "string \<Rightarrow> config \<Rightarrow> error + encoder_kind" where
  "select_encoder path c =
     (let ext = ext_of path
      in if ext = ''mp4'' then Inr (OpenCVEncoder path ''mp4v'' (cfg_fps c) (cfg_w c) (cfg_h c))
         else if ext = ''gif'' then Inr (GIFEncoder path (cfg_fps c))
         else if ext = ''webp'' then Inr (WebPEncoder path (cfg_fps c))
         else Inl (ValueError (unrecognized ext)))"

text \<open>The attributes as \<^verbatim>\<open>__init__\<close> sets them before the intro is written.\<close>

definition fresh :: "encoder_kind \<Rightarrow> config \<Rightarrow> renderer" where
  "fresh k c = \<lparr>cfg = c,
                 encoder = \<lparr>enc_kind = k, enc_written = [], enc_stopped = 0\<rparr>,
                 sizes = None, last_var = None, ref_var = None, frame = None\<rparr>"

definition init :: "env \<Rightarrow> string \<Rightarrow> config \<Rightarrow> error + renderer" where
  "init ev path c =
     and_then (select_encoder path c) (\<lambda>k.
       if truthy (cfg_intro_text c) \<and> cfg_intro_time c \<noteq> 0
       then write_intro ev (fresh k c)
       else Inr (fresh k c))"

section \<open>A concrete configuration\<close>

text \<open>
  A 1280 by 720 canvas split at two thirds of the width and four fifths of the height,
  a monospaced font of 8 by 16 pixels per glyph, and a painter that reports positions
  from the number of requests made so far. No intro is configured; the watermark is on.
\<close>

definition env0 :: env where
  "env0 = \<lparr>textsize = (\<lambda>fnt txt. (8 * int (length txt), 16)),
            painter_pos = (\<lambda>box ws. (tp_x box + of_nat (length ws), tp_y box)),
            irepr_pos = (\<lambda>box ws. (tp_x box + of_nat (length ws), tp_y box + 1)),
            styles = (\<lambda>tok. Some (None, False))\<rparr>"

definition cfg0 :: config where
  "cfg0 = \<lparr>cfg_fps = 4, cfg_w = 1280, cfg_h = 720, cfg_var_x = 853, cfg_out_y = 576,
            cfg_ovar_y = 240, cfg_sect_padding = 20, cfg_head_padding = 20,
            cfg_line_height = 5 / 4, cfg_intro_text = None, cfg_intro_time = 1 / 2,
            cfg_watermark = True, cfg_bg = ''bg'', cfg_fg_body = ''fg_body'',
            cfg_fg_heading = ''fg_heading'', cfg_fg_watermark = ''fg_watermark'',
            cfg_highlight = ''highlight'', cfg_red = ''red'', cfg_green = ''green'',
            cfg_blue = ''blue''\<rparr>"

text \<open>The same with an intro text, and with an output panel too low for a single row.\<close>

definition cfg_intro :: config where
  "cfg_intro = cfg0\<lparr>cfg_intro_text := Some ''vardbg''\<rparr>"

definition cfg_flat :: config where
  "cfg_flat = cfg0\<lparr>cfg_out_y := 660\<rparr>"

text \<open>The renderer of a run, or the one given if the run failed.\<close>

definition result_or :: "renderer \<Rightarrow> error + renderer \<Rightarrow> renderer" where
  "result_or d m = (case m of Inl e \<Rightarrow> d | Inr r \<Rightarrow> r)"

definition mp4 :: encoder_kind where
  "mp4 = OpenCVEncoder ''out.mp4'' ''mp4v'' 4 1280 720"

text \<open>The renderers after construction and the first \<^verbatim>\<open>start_frame\<close>.\<close>

definition started0 :: renderer where
  "started0 = result_or (fresh mp4 cfg0) (and_then (init env0 ''out.mp4'' cfg0) (start_frame env0))"

definition started_flat :: renderer where
  "started_flat =
     result_or (fresh mp4 cfg_flat) (and_then (init env0 ''out.mp4'' cfg_flat) (start_frame env0))"

text \<open>
  A line height of \<^verbatim>\<open>1.1\<close> with the output panel 8 pixels lower: the row count
  \<^verbatim>\<open>_body_rows\<close> is the double just below 30. An intro of \<^verbatim>\<open>0.35\<close> seconds at 10
  frames per second.
\<close>

definition cfg_edge :: config where
  "cfg_edge = cfg0\<lparr>cfg_line_height := fl (11 / 10), cfg_out_y := 584\<rparr>"

definition cfg_brief :: config where
  "cfg_brief = cfg0\<lparr>cfg_intro_text := Some ''vardbg'', cfg_intro_time := fl (35 / 100), cfg_fps := 10\<rparr>"

text \<open>An empty intro text with the intro time and the frame rate left as they are.\<close>

definition cfg_no_text :: config where
  "cfg_no_text = cfg0\<lparr>cfg_intro_text := Some []\<rparr>"

text \<open>
  Variable states: \<open>y\<close> was assigned from \<open>x\<close>. In the first, the history of \<open>x\<close> is
  shown; in the second it is flagged ignored. In the third nothing is referenced and the
  first of two variables is flagged ignored.
\<close>

definition st_shown :: var_state where
  "st_shown = \<lparr>vs_name = ''y'', vs_action = ''='', vs_color = ''red'', vs_text = ''2'',
                vs_value = ''2'', vs_ref = Some ''x'',
                vs_other_history = [(''x'', \<lparr>hist_ignored = False, hist_values = [''1'', ''2'']\<rparr>)]\<rparr>"

definition st_hidden :: var_state where
  "st_hidden = st_shown\<lparr>vs_other_history :=
                 [(''x'', \<lparr>hist_ignored = True, hist_values = [''1'', ''2'']\<rparr>)]\<rparr>"

definition st_first_ignored :: var_state where
  "st_first_ignored = st_shown\<lparr>vs_ref := None, vs_other_history :=
                 [(''a'', \<lparr>hist_ignored = True, hist_values = [''1'']\<rparr>),
                  (''b'', \<lparr>hist_ignored = False, hist_values = [''2'']\<rparr>)]\<rparr>"

text \<open>
  The renderer at the start of a second frame, after the first frame was finished with
  \<open>st_shown\<close>.
\<close>

definition second0 :: renderer where
  "second0 =
     result_or started0 (and_then (finish_frame env0 (Some st_shown) started0) (start_frame env0))"

section \<open>Rounding to integers and to doubles\<close>

lemma py_round_le: "of_int (py_round x) \<le> x + 1 / 2"
  unfolding py_round_def Let_def by (simp; linarith)

lemma py_round_ge: "x - 1 / 2 \<le> of_int (py_round x)"
  unfolding py_round_def Let_def by (simp; linarith)

lemma py_round_of_int: "py_round (of_int n) = n"
  by (simp add: py_round_def)

lemma py_round_floor: "\<lfloor>x\<rfloor> \<le> py_round x \<and> py_round x \<le> \<lfloor>x\<rfloor> + 1"
  by (simp add: py_round_def Let_def)

lemma py_round_mono:
  assumes "x \<le> y"
  shows "py_round x \<le> py_round y"
proof (cases "\<lfloor>x\<rfloor> = \<lfloor>y\<rfloor>")
  case True
  have "x - of_int \<lfloor>y\<rfloor> \<le> y - of_int \<lfloor>y\<rfloor>" using assms by simp
  then show ?thesis unfolding py_round_def Let_def True by auto
next
  case False
  then have "\<lfloor>x\<rfloor> + 1 \<le> \<lfloor>y\<rfloor>" using floor_mono [OF assms] by linarith
  then show ?thesis using py_round_floor [of x] py_round_floor [of y] by linarith
qed

lemma py_round_uminus: "py_round (- x) = - py_round x"
proof (cases "x = of_int \<lfloor>x\<rfloor>")
  case True
  then obtain n where "x = of_int n" ..
  then have "- x = of_int (- n)" by simp
  then show ?thesis using \<open>x = of_int n\<close> by (simp only: py_round_of_int)
next
  case False
  define f where "f = \<lfloor>x\<rfloor>"
  define d where "d = x - of_int f"
  have d: "0 < d" "d < 1" using False unfolding d_def f_def by linarith+
  have fm: "\<lfloor>- x\<rfloor> = - f - 1" unfolding f_def using False by linarith
  have dm: "- x - of_int (- f - 1) = 1 - d" unfolding d_def by simp
  have ev: "even (- f - 1) \<longleftrightarrow> odd f" by simp
  have a: "py_round x = (if d < 1 / 2 then f else if 1 / 2 < d then f + 1 else if even f then f else f + 1)"
    unfolding py_round_def Let_def f_def d_def by simp
  have b: "py_round (- x) = (if 1 - d < 1 / 2 then - f - 1 else if 1 / 2 < 1 - d then - f - 1 + 1
             else if odd f then - f - 1 else - f - 1 + 1)"
    unfolding py_round_def Let_def fm dm ev by simp
  show ?thesis unfolding a b using d by auto
qed

lemma pow2_of_nat: "0 \<le> k \<Longrightarrow> (of_int (2 ^ nat k) :: rat) = 2 powi k"
  by (simp add: power_int_def)

lemma expo_bounds:
  assumes "x \<noteq> 0"
  shows "2 powi (expo x) \<le> \<bar>x\<bar> \<and> \<bar>x\<bar> < 2 powi (expo x + 1)"
proof -
  obtain p q where pq: "quotient_of \<bar>x\<bar> = (p, q)" by (cases "quotient_of \<bar>x\<bar>")
  have q: "0 < q" using pq by (rule quotient_of_denom_pos)
  have x: "\<bar>x\<bar> = of_int p / of_int q" using pq by (rule quotient_of_div)
  have "0 < \<bar>x\<bar>" using assms by simp
  then have p: "0 < p" using q unfolding x by (simp add: zero_less_divide_iff)
  define bp where "bp = bitlen p"
  define bq where "bq = bitlen q"
  have bp: "2 ^ nat (bp - 1) \<le> p" "p < 2 ^ nat bp" and bq: "2 ^ nat (bq - 1) \<le> q" "q < 2 ^ nat bq"
    using bitlen_bounds [OF p] bitlen_bounds [OF q] unfolding bp_def bq_def by simp_all
  have bp1: "1 \<le> bp" and bq1: "1 \<le> bq"
    using p q unfolding bp_def bq_def by (simp_all add: bitlen_alt_def)
  have P1: "(2::rat) powi (bp - 1) \<le> of_int p"
    using bp(1) bp1 by (metis diff_ge_0_iff_ge of_int_le_iff pow2_of_nat)
  have P2: "(of_int p :: rat) < 2 powi bp"
    using bp(2) bp1 by (metis (no_types) bitlen_nonneg bp_def of_int_less_iff pow2_of_nat)
  have Q1: "(2::rat) powi (bq - 1) \<le> of_int q"
    using bq(1) bq1 by (metis diff_ge_0_iff_ge of_int_le_iff pow2_of_nat)
  have Q2: "(of_int q :: rat) < 2 powi bq"
    using bq(2) bq1 by (metis (no_types) bitlen_nonneg bq_def of_int_less_iff pow2_of_nat)
  have qpos: "(0::rat) < of_int q" using q by simp
  have lo: "(2::rat) powi (bp - bq - 1) \<le> \<bar>x\<bar>"
  proof -
    have "(2::rat) powi (bp - bq - 1) * of_int q \<le> 2 powi (bp - bq - 1) * 2 powi bq"
      using Q2 by (simp add: less_imp_le)
    also have "\<dots> = 2 powi (bp - 1)" by (simp add: power_int_add [symmetric])
    also have "\<dots> \<le> of_int p" by (rule P1)
    finally show ?thesis unfolding x using qpos by (simp add: pos_le_divide_eq)
  qed
  have hi: "\<bar>x\<bar> < (2::rat) powi (bp - bq + 1)"
  proof -
    have "(of_int p :: rat) < 2 powi bp" by (rule P2)
    also have "\<dots> = 2 powi (bp - bq + 1) * 2 powi (bq - 1)" by (simp add: power_int_add [symmetric])
    also have "\<dots> \<le> 2 powi (bp - bq + 1) * of_int q" using Q1 by simp
    finally show ?thesis unfolding x using qpos by (simp add: pos_divide_less_eq)
  qed
  show ?thesis
  proof (cases "2 powi (bp - bq) \<le> \<bar>x\<bar>")
    case True
    then have "expo x = bp - bq" by (simp add: expo_def pq bp_def bq_def)
    then show ?thesis using True hi by simp
  next
    case False
    then have "expo x = bp - bq - 1" by (simp add: expo_def pq bp_def bq_def)
    then show ?thesis using False lo by simp
  qed
qed

lemma expo_uminus: "expo (- x) = expo x"
  by (simp add: expo_def)

lemma fl_uminus: "fl (- x) = - fl x"
  by (simp add: fl_def expo_uminus Let_def py_round_uminus)

lemma pow2_less_cancel: "(2::rat) powi a < 2 powi b \<Longrightarrow> a < b"
proof (rule ccontr)
  assume l: "(2::rat) powi a < 2 powi b" and "\<not> a < b"
  then have "b \<le> a" by simp
  then have "(2::rat) powi b \<le> 2 powi a" by (intro power_int_increasing) simp_all
  then show False using l by simp
qed

lemma pow2_add: "(2::rat) powi a * 2 powi b = 2 powi (a + b)"
  by (simp add: power_int_add)

lemma pow2_le_mono: "a \<le> b \<Longrightarrow> (2::rat) powi a \<le> 2 powi b"
  by (intro power_int_increasing) simp_all

lemma expo_mono:
  assumes "0 < x" and "x \<le> y"
  shows "expo x \<le> expo y"
proof -
  have "x \<noteq> 0" "y \<noteq> 0" using assms by simp_all
  from expo_bounds [OF this(1)] expo_bounds [OF this(2)] assms
  have "(2::rat) powi expo x < 2 powi (expo y + 1)" by simp
  then have "expo x < expo y + 1" by (rule pow2_less_cancel)
  then show ?thesis by simp
qed

lemma fl_pos_bounds:
  assumes "0 < x"
  shows "2 powi expo x \<le> fl x \<and> fl x \<le> 2 powi (expo x + 1)"
proof -
  define u :: rat where "u = 2 powi (expo x - 52)"
  have u: "0 < u" unfolding u_def by simp
  have f: "fl x = of_int (py_round (x / u)) * u"
    using assms by (simp add: fl_def Let_def u_def)
  have x0: "x \<noteq> 0" using assms by simp
  from expo_bounds [OF x0] assms
  have b: "2 powi expo x \<le> x" "x < 2 powi (expo x + 1)" by simp_all
  have e1: "(2::rat) powi expo x = 2 powi 52 * u"
    unfolding u_def using pow2_add [of 52 "expo x - 52"] by simp
  have e2: "(2::rat) powi (expo x + 1) = 2 powi 53 * u"
    unfolding u_def using pow2_add [of 53 "expo x - 52"] by (simp add: add.commute)
  have "(2::rat) powi 52 \<le> x / u" using b(1) u unfolding e1 by (simp add: pos_le_divide_eq)
  then have "(of_int (2 ^ 52) :: rat) \<le> x / u" by simp
  then have "py_round (of_int (2 ^ 52)) \<le> py_round (x / u)" by (rule py_round_mono)
  then have "(2::int) ^ 52 \<le> py_round (x / u)" by (simp only: py_round_of_int)
  then have "(of_int (2 ^ 52) :: rat) \<le> of_int (py_round (x / u))" by (simp only: of_int_le_iff)
  then have lo: "2 powi expo x \<le> fl x" unfolding e1 f using u by simp
  have "x / u \<le> (2::rat) powi 53" using b(2) u unfolding e2 by (simp add: pos_divide_le_eq)
  then have "x / u \<le> (of_int (2 ^ 53) :: rat)" by simp
  then have "py_round (x / u) \<le> py_round (of_int (2 ^ 53))" by (rule py_round_mono)
  then have "py_round (x / u) \<le> (2::int) ^ 53" by (simp only: py_round_of_int)
  then have "(of_int (py_round (x / u)) :: rat) \<le> of_int (2 ^ 53)" by (simp only: of_int_le_iff)
  then have hi: "fl x \<le> 2 powi (expo x + 1)" unfolding e2 f using u by simp
  show ?thesis using lo hi by simp
qed

lemma fl_pos: "0 < x \<Longrightarrow> 0 < fl x"
proof -
  assume "0 < x"
  from fl_pos_bounds [OF this] have "2 powi expo x \<le> fl x" by simp
  moreover have "(0::rat) < 2 powi expo x" by simp
  ultimately show ?thesis by linarith
qed

lemma fl_zero: "fl 0 = 0"
  by (simp add: fl_def)

lemma fl_eq_0_iff: "fl x = 0 \<longleftrightarrow> x = 0"
proof
  assume z: "fl x = 0"
  show "x = 0"
  proof (rule ccontr)
    assume "x \<noteq> 0"
    then consider "0 < x" | "0 < - x" by linarith
    then show False
    proof cases
      case 1
      then show False using fl_pos [of x] z by simp
    next
      case 2
      then show False using fl_pos [of "- x"] z by (simp add: fl_uminus)
    qed
  qed
next
  assume "x = 0"
  then show "fl x = 0" by (simp add: fl_zero)
qed

lemma fl_mono_pos:
  assumes "0 < x" and "x \<le> y"
  shows "fl x \<le> fl y"
proof -
  have y: "0 < y" using assms by simp
  have le: "expo x \<le> expo y" using assms by (rule expo_mono)
  show ?thesis
  proof (cases "expo x = expo y")
    case True
    define u :: rat where "u = 2 powi (expo y - 52)"
    have u: "0 < u" unfolding u_def by simp
    have "x / u \<le> y / u" using assms(2) u by (simp add: divide_right_mono)
    then have "py_round (x / u) \<le> py_round (y / u)" by (rule py_round_mono)
    then have "(of_int (py_round (x / u)) :: rat) * u \<le> of_int (py_round (y / u)) * u"
      using u by simp
    then show ?thesis using assms(1) y True by (simp add: fl_def Let_def u_def)
  next
    case False
    then have "expo x + 1 \<le> expo y" using le by simp
    then have "(2::rat) powi (expo x + 1) \<le> 2 powi expo y" by (rule pow2_le_mono)
    then show ?thesis using fl_pos_bounds [OF assms(1)] fl_pos_bounds [OF y] by linarith
  qed
qed

lemma fl_mono:
  assumes "x \<le> y"
  shows "fl x \<le> fl y"
proof -
  consider "0 < x" | "x \<le> 0" "0 \<le> y" | "y < 0" using assms by linarith
  then show ?thesis
  proof cases
    case 1
    then show ?thesis using assms by (rule fl_mono_pos)
  next
    case 2
    have "fl x \<le> 0"
    proof (cases "x = 0")
      case True
      then show ?thesis by (simp add: fl_zero)
    next
      case False
      then have "0 < - x" using 2(1) by simp
      then have "0 < fl (- x)" by (rule fl_pos)
      then show ?thesis by (simp add: fl_uminus)
    qed
    moreover have "0 \<le> fl y"
    proof (cases "y = 0")
      case True
      then show ?thesis by (simp add: fl_zero)
    next
      case False
      then have "0 < y" using 2(2) by simp
      then have "0 < fl y" by (rule fl_pos)
      then show ?thesis by simp
    qed
    ultimately show ?thesis by linarith
  next
    case 3
    then have "0 < - y" "- y \<le> - x" using assms by simp_all
    then have "fl (- y) \<le> fl (- x)" by (rule fl_mono_pos)
    then show ?thesis by (simp add: fl_uminus)
  qed
qed

lemma fl_fix:
  assumes "\<bar>m\<bar> < 2 ^ 53"
  shows "fl (of_int m * 2 powi k) = of_int m * 2 powi k"
proof (cases "m = 0")
  case True
  then show ?thesis by (simp add: fl_zero)
next
  case False
  define x :: rat where "x = of_int m * 2 powi k"
  define e where "e = expo x"
  have x0: "x \<noteq> 0" using False unfolding x_def by simp
  have ax: "\<bar>x\<bar> = of_int \<bar>m\<bar> * 2 powi k" unfolding x_def by (simp add: abs_mult)
  have "(of_int \<bar>m\<bar> :: rat) < of_int (2 ^ 53)" using assms by (simp only: of_int_less_iff)
  then have "(of_int \<bar>m\<bar> :: rat) < 2 powi 53" by simp
  then have "\<bar>x\<bar> < 2 powi 53 * 2 powi k" unfolding ax by simp
  also have "\<dots> = 2 powi (k + 53)" using pow2_add [of 53 k] by (simp add: add.commute)
  finally have "\<bar>x\<bar> < 2 powi (k + 53)" .
  moreover have "2 powi e \<le> \<bar>x\<bar>" using expo_bounds [OF x0] unfolding e_def by simp
  ultimately have "(2::rat) powi e < 2 powi (k + 53)" by linarith
  then have "e < k + 53" by (rule pow2_less_cancel)
  then have t: "0 \<le> k - e + 52" by simp
  define t where "t = nat (k - e + 52)"
  have pt: "(2::rat) powi (k - e + 52) = of_int (2 ^ t)"
    using t unfolding t_def by (simp add: power_int_def)
  have "x / 2 powi (e - 52) = of_int m * (2 powi k * 2 powi (- (e - 52)))"
    unfolding x_def by (simp only: power_int_minus divide_inverse mult.assoc)
  also have "2 powi k * (2::rat) powi (- (e - 52)) = 2 powi (k - e + 52)"
    by (simp add: pow2_add algebra_simps)
  finally have q: "x / 2 powi (e - 52) = of_int (m * 2 ^ t)" unfolding pt by simp
  have "fl x = of_int (py_round (x / 2 powi (e - 52))) * 2 powi (e - 52)"
    using x0 by (simp add: fl_def Let_def e_def)
  also have "\<dots> = of_int (m * 2 ^ t) * 2 powi (e - 52)"
    unfolding q by (simp only: py_round_of_int)
  also have "\<dots> = x / 2 powi (e - 52) * 2 powi (e - 52)" unfolding q ..
  also have "\<dots> = x" by simp
  finally show ?thesis unfolding x_def .
qed

lemma fl_of_int: "\<bar>m\<bar> < 2 ^ 53 \<Longrightarrow> fl (of_int m) = of_int m"
  using fl_fix [of m 0] by simp

lemma fl_half: "\<bar>m\<bar> < 2 ^ 53 \<Longrightarrow> fl (of_int m / 2) = of_int m / 2"
  using fl_fix [of m "- 1"] by (simp add: power_int_minus field_simps)

section \<open>Rounding and slicing\<close>

lemma round_fl_ge:
  assumes "of_int a \<le> x" and "\<bar>a\<bar> < 2 ^ 53"
  shows "a \<le> py_round (fl x)"
proof -
  have "fl (of_int a) \<le> fl x" using assms(1) by (rule fl_mono)
  then have "of_int a \<le> fl x" unfolding fl_of_int [OF assms(2)] .
  then have "py_round (of_int a) \<le> py_round (fl x)" by (rule py_round_mono)
  then show ?thesis by (simp only: py_round_of_int)
qed

lemma round_fl_le:
  assumes "x \<le> of_int a" and "\<bar>a\<bar> < 2 ^ 53"
  shows "py_round (fl x) \<le> a"
proof -
  have "fl x \<le> fl (of_int a)" using assms(1) by (rule fl_mono)
  then have "fl x \<le> of_int a" unfolding fl_of_int [OF assms(2)] .
  then have "py_round (fl x) \<le> py_round (of_int a)" by (rule py_round_mono)
  then show ?thesis by (simp only: py_round_of_int)
qed

text \<open>
  The context on each side, \<^verbatim>\<open>ctx_side_lines\<close>, lies between \<open>(n - 1) / 2\<close> and
  \<open>n / 2\<close> for \<open>n = int(_body_rows)\<close>.
\<close>

lemma side_bounds:
  assumes "1 \<le> R" and "R < 2 ^ 52"
  shows "of_int (py_int R - 1) / 2 \<le> fl (fl (R - 1) / 2)
       \<and> fl (fl (R - 1) / 2) \<le> of_int (py_int R) / 2"
proof -
  define n where "n = py_int R"
  have n: "n = \<lfloor>R\<rfloor>" using assms(1) by (simp add: n_def py_int_def)
  have n1: "1 \<le> n" using assms(1) unfolding n by (simp add: le_floor_iff)
  have "of_int n \<le> R" unfolding n by simp
  also have "R < 2 ^ 52" by (rule assms(2))
  finally have "(of_int n :: rat) < of_int (2 ^ 52)" by simp
  then have nb: "n < 2 ^ 52" by (simp only: of_int_less_iff)
  have b1: "\<bar>n - 1\<bar> < 2 ^ 53" and b2: "\<bar>n\<bar> < 2 ^ 53" using n1 nb by simp_all
  have "of_int (n - 1) \<le> R - 1" unfolding n by simp
  then have "fl (of_int (n - 1)) \<le> fl (R - 1)" by (rule fl_mono)
  then have "of_int (n - 1) \<le> fl (R - 1)" unfolding fl_of_int [OF b1] .
  then have "of_int (n - 1) / 2 \<le> fl (R - 1) / 2" by (rule divide_right_mono) simp
  then have "fl (of_int (n - 1) / 2) \<le> fl (fl (R - 1) / 2)" by (rule fl_mono)
  then have lo: "of_int (n - 1) / 2 \<le> fl (fl (R - 1) / 2)" unfolding fl_half [OF b1] .
  have "R - 1 \<le> of_int n" unfolding n by linarith
  then have "fl (R - 1) \<le> fl (of_int n)" by (rule fl_mono)
  then have "fl (R - 1) \<le> of_int n" unfolding fl_of_int [OF b2] .
  then have "fl (R - 1) / 2 \<le> of_int n / 2" by (rule divide_right_mono) simp
  then have "fl (fl (R - 1) / 2) \<le> fl (of_int n / 2)" by (rule fl_mono)
  then have hi: "fl (fl (R - 1) / 2) \<le> of_int n / 2" unfolding fl_half [OF b2] .
  show ?thesis using lo hi unfolding n_def by simp
qed

text \<open>The naive bounds keep between \<open>(n - 1) div 2\<close> and \<open>(n + 1) div 2\<close> lines on each side.\<close>

lemma naive_bounds_range:
  assumes "1 \<le> R" and "R < 2 ^ 52" and "0 \<le> c" and "c < 2 ^ 52"
    and "naive_bounds R c = (s0, e0)"
  shows "c - (py_int R + 1) div 2 \<le> s0 \<and> s0 \<le> c - (py_int R - 1) div 2
       \<and> c + (py_int R - 1) div 2 \<le> e0 \<and> e0 \<le> c + (py_int R + 1) div 2"
proof -
  define n where "n = py_int R"
  define side where "side = fl (fl (R - 1) / 2)"
  define lo where "lo = (n - 1) div 2"
  define hi where "hi = (n + 1) div 2"
  have n: "n = \<lfloor>R\<rfloor>" using assms(1) by (simp add: n_def py_int_def)
  have n1: "1 \<le> n" using assms(1) unfolding n by (simp add: le_floor_iff)
  have "of_int n \<le> R" unfolding n by simp
  also have "R < 2 ^ 52" by (rule assms(2))
  finally have "(of_int n :: rat) < of_int (2 ^ 52)" by simp
  then have nb: "n < 2 ^ 52" by (simp only: of_int_less_iff)
  have lo0: "0 \<le> lo" "lo \<le> hi" "hi \<le> n" using n1 unfolding lo_def hi_def by simp_all
  have sb: "of_int (n - 1) / 2 \<le> side" "side \<le> of_int n / 2"
    using side_bounds [OF assms(1,2)] unfolding n_def side_def by simp_all
  have "2 * lo \<le> n - 1" unfolding lo_def by simp
  then have "(of_int (2 * lo) :: rat) \<le> of_int (n - 1)" by (simp only: of_int_le_iff)
  then have l: "of_int lo \<le> side" using sb(1) by simp
  have "n \<le> 2 * hi" unfolding hi_def by presburger
  then have "(of_int n :: rat) \<le> of_int (2 * hi)" by (simp only: of_int_le_iff)
  then have h: "side \<le> of_int hi" using sb(2) by simp
  have s0: "s0 = py_round (fl (of_int c - side))" and e0: "e0 = py_round (fl (of_int c + side))"
    using assms(5) by (simp_all add: naive_bounds_def Let_def side_def)
  have m: "\<bar>c - hi\<bar> < 2 ^ 53" "\<bar>c - lo\<bar> < 2 ^ 53" "\<bar>c + lo\<bar> < 2 ^ 53" "\<bar>c + hi\<bar> < 2 ^ 53"
    using assms(3,4) lo0 nb by simp_all
  have "(of_int (c - hi) :: rat) \<le> of_int c - side" using h by simp
  then have a: "c - hi \<le> s0" unfolding s0 using m(1) by (rule round_fl_ge)
  have "of_int c - side \<le> (of_int (c - lo) :: rat)" using l by simp
  then have b: "s0 \<le> c - lo" unfolding s0 using m(2) by (rule round_fl_le)
  have "(of_int (c + lo) :: rat) \<le> of_int c + side" using l by simp
  then have d: "c + lo \<le> e0" unfolding e0 using m(3) by (rule round_fl_ge)
  have "of_int c + side \<le> (of_int (c + hi) :: rat)" using h by simp
  then have e: "e0 \<le> c + hi" unfolding e0 using m(4) by (rule round_fl_le)
  show ?thesis using a b d e unfolding lo_def hi_def n_def by simp
qed

lemma window_start_nonneg:
  assumes "window_bounds R c = (s, e)"
  shows "0 \<le> s"
  using assms by (auto simp: window_bounds_def split: prod.splits if_splits)

lemma length_hlines: "length (hlines lines c) = length lines"
  by (simp add: hlines_def)

lemma hlines_nth:
  assumes "0 \<le> c" and "c < int (length lines)"
  shows "hlines lines c ! nat c = (lines ! nat c, True)"
  using assms by (simp add: hlines_def nth_enumerate_eq)

lemma py_slice_take_drop:
  assumes "0 \<le> s" and "0 \<le> e" and "s \<le> int (length xs)"
  shows "py_slice xs s e = take (nat (e - s)) (drop (nat s) xs)"
proof -
  let ?n = "int (length xs)"
  have sl: "py_slice xs s e = take (nat (min e ?n - s)) (drop (nat s) xs)"
    using assms by (simp add: py_slice_def slice_bound_def Let_def min_absorb1)
  show ?thesis
  proof (cases "e \<le> ?n")
    case True
    then show ?thesis unfolding sl by (simp add: min_absorb1)
  next
    case False
    then have "length (drop (nat s) xs) \<le> nat (e - s)" "length (drop (nat s) xs) \<le> nat (min e ?n - s)"
      using assms by simp_all
    then show ?thesis unfolding sl by simp
  qed
qed

lemma nth_in_take_drop_nat:
  assumes "s \<le> i" and "i < s + k" and "i < length xs"
  shows "xs ! i \<in> set (take k (drop s xs))"
proof -
  have "i - s < length xs - s" "i - s < k" using assms by arith+
  then have "i - s < length (take k (drop s xs))" by simp
  then have "take k (drop s xs) ! (i - s) \<in> set (take k (drop s xs))" by (rule nth_mem)
  moreover have "take k (drop s xs) ! (i - s) = xs ! i" using assms by simp
  ultimately show ?thesis by simp
qed

text \<open>The displayed window in terms of the naive bounds.\<close>

lemma display_lines_naive:
  assumes "naive_bounds R (cur_line - 1) = (s0, e0)" and "s0 \<le> cur_line - 1" and "0 \<le> e0"
    and "1 \<le> cur_line" and "cur_line \<le> int (length lines)"
  shows "display_lines R lines cur_line
           = take (nat (e0 - s0)) (drop (nat s0) (hlines lines (cur_line - 1)))"
proof (cases "s0 < 0")
  case True
  then have w: "window_bounds R (cur_line - 1) = (0, e0 + \<bar>s0\<bar>)"
    using assms(1) by (simp add: window_bounds_def)
  have "py_slice (hlines lines (cur_line - 1)) 0 (e0 + \<bar>s0\<bar>)
          = take (nat (e0 + \<bar>s0\<bar> - 0)) (drop (nat 0) (hlines lines (cur_line - 1)))"
    using assms(3) by (intro py_slice_take_drop) simp_all
  then show ?thesis using True by (simp add: display_lines_def Let_def w)
next
  case False
  then have w: "window_bounds R (cur_line - 1) = (s0, e0)"
    using assms(1) by (simp add: window_bounds_def)
  have "py_slice (hlines lines (cur_line - 1)) s0 e0
          = take (nat (e0 - s0)) (drop (nat s0) (hlines lines (cur_line - 1)))"
    using False assms(2,3,5) by (intro py_slice_take_drop) (simp_all add: length_hlines)
  then show ?thesis by (simp add: display_lines_def Let_def w)
qed

section \<open>Claims about the code viewport\<close>

text \<open>
  C1 (as amended). Let \<open>n = int(_body_rows)\<close> be the body rows, at least 1, \<open>L\<close> the number
  of source lines and \<open>c\<close> the 0-based index of a current line inside the file. The naive
  bounds \<open>s0\<close> and \<open>e0\<close> of \<^verbatim>\<open>draw_code\<close> keep between \<open>(n - 1) div 2\<close> and
  \<open>(n + 1) div 2\<close> lines on each side of \<open>c\<close>, so they span between \<open>n - 2\<close> and \<open>n + 1\<close>
  rows. The window displayed is exactly the lines from index \<open>max(0, s0)\<close> on, \<open>e0 - s0\<close>
  of them or as many as the file still has; its length is
  \<open>min(e0 - s0, L - max(0, s0))\<close>. From 3 body rows on, the current line is in the
  window, carrying the highlight flag.
\<close>

theorem display_lines_window:
  assumes "1 \<le> R" and "R < 2 ^ 52" and "1 \<le> cur_line" and "cur_line \<le> int (length lines)"
    and "int (length lines) < 2 ^ 52"
  shows "\<exists>s0 e0. naive_bounds R (cur_line - 1) = (s0, e0)
     \<and> cur_line - 1 - (py_int R + 1) div 2 \<le> s0 \<and> s0 \<le> cur_line - 1 - (py_int R - 1) div 2
     \<and> cur_line - 1 + (py_int R - 1) div 2 \<le> e0 \<and> e0 \<le> cur_line - 1 + (py_int R + 1) div 2
     \<and> py_int R - 2 \<le> e0 - s0 \<and> e0 - s0 \<le> py_int R + 1
     \<and> display_lines R lines cur_line
          = take (nat (e0 - s0)) (drop (nat s0) (hlines lines (cur_line - 1)))
     \<and> length (display_lines R lines cur_line) = min (nat (e0 - s0)) (length lines - nat s0)
     \<and> (3 \<le> R \<longrightarrow> (lines ! nat (cur_line - 1), True) \<in> set (display_lines R lines cur_line))"
proof -
  define c where "c = cur_line - 1"
  define n where "n = py_int R"
  obtain s0 e0 where nb: "naive_bounds R c = (s0, e0)" by (cases "naive_bounds R c")
  have c0: "0 \<le> c" and cl: "c < int (length lines)" and cb: "c < 2 ^ 52"
    using assms(3,4,5) unfolding c_def by simp_all
  have n: "n = \<lfloor>R\<rfloor>" using assms(1) by (simp add: n_def py_int_def)
  have n1: "1 \<le> n" using assms(1) unfolding n by (simp add: le_floor_iff)
  from naive_bounds_range [OF assms(1,2) c0 cb nb]
  have r: "c - (n + 1) div 2 \<le> s0" "s0 \<le> c - (n - 1) div 2"
          "c + (n - 1) div 2 \<le> e0" "e0 \<le> c + (n + 1) div 2"
    unfolding n_def by simp_all
  have lo0: "0 \<le> (n - 1) div 2" using n1 by simp
  have sc: "s0 \<le> c" and e0: "0 \<le> e0" using r(2,3) lo0 c0 by linarith+
  have span: "n - 2 \<le> e0 - s0" "e0 - s0 \<le> n + 1"
  proof -
    have "n - 2 \<le> 2 * ((n - 1) div 2)" by presburger
    then show "n - 2 \<le> e0 - s0" using r(2,3) by linarith
    have "2 * ((n + 1) div 2) \<le> n + 1" by presburger
    then show "e0 - s0 \<le> n + 1" using r(1,4) by linarith
  qed
  have d: "display_lines R lines cur_line = take (nat (e0 - s0)) (drop (nat s0) (hlines lines c))"
    unfolding c_def using nb sc e0 assms(3,4) unfolding c_def by (rule display_lines_naive)
  have len: "length (display_lines R lines cur_line) = min (nat (e0 - s0)) (length lines - nat s0)"
    unfolding d by (simp add: length_hlines)
  have mem: "(lines ! nat c, True) \<in> set (display_lines R lines cur_line)" if "3 \<le> R"
  proof -
    have "3 \<le> n" using that unfolding n by (simp add: le_floor_iff)
    then have "1 \<le> (n - 1) div 2" by simp
    then have "s0 \<le> c" "c < e0" using r(2,3) by linarith+
    then have "nat s0 \<le> nat c" "nat c < nat s0 + nat (e0 - s0)" using c0 by linarith+
    moreover have "nat c < length (hlines lines c)" using c0 cl by (simp add: length_hlines)
    ultimately have "hlines lines c ! nat c \<in> set (take (nat (e0 - s0)) (drop (nat s0) (hlines lines c)))"
      by (rule nth_in_take_drop_nat)
    then show ?thesis unfolding d using c0 cl by (simp add: hlines_nth)
  qed
  show ?thesis using nb r span d len mem unfolding c_def n_def by blast
qed

theorem display_lines_window_witness:
  "(1::rat) \<le> 11 \<and> (11::rat) < 2 ^ 52 \<and> (1::int) \<le> 25
   \<and> 25 \<le> int (length (replicate 50 ''code'')) \<and> int (length (replicate 50 ''code'')) < 2 ^ 52
   \<and> naive_bounds 11 (25 - 1) = (19, 29)
   \<and> display_lines 11 (replicate 50 ''code'') 25
        = take (nat (29 - 19)) (drop (nat 19) (hlines (replicate 50 ''code'') (25 - 1)))
   \<and> length (display_lines 11 (replicate 50 ''code'') 25)
        = min (nat (29 - 19)) (length (replicate 50 ''code'') - nat 19)
   \<and> (replicate 50 ''code'' ! nat (25 - 1), True) \<in> set (display_lines 11 (replicate 50 ''code'') 25)"
proof -
  have h: "(1::rat) \<le> 11" "(11::rat) < 2 ^ 52" "(1::int) \<le> 25"
    "25 \<le> int (length (replicate 50 ''code''))" "int (length (replicate 50 ''code'')) < 2 ^ 52"
    by simp_all
  have r: "(3::rat) \<le> 11" by simp
  have v: "naive_bounds 11 (25 - 1) = (19, 29)" by code_simp
  from display_lines_window [OF h] obtain s0 e0 where
    a: "naive_bounds 11 (25 - 1) = (s0, e0)"
    and b: "display_lines 11 (replicate 50 ''code'') 25
          = take (nat (e0 - s0)) (drop (nat s0) (hlines (replicate 50 ''code'') (25 - 1)))"
    and c: "length (display_lines 11 (replicate 50 ''code'') 25)
          = min (nat (e0 - s0)) (length (replicate 50 ''code'') - nat s0)"
    and d: "3 \<le> (11::rat) \<longrightarrow>
          (replicate 50 ''code'' ! nat (25 - 1), True) \<in> set (display_lines 11 (replicate 50 ''code'') 25)"
    by blast
  have s: "s0 = 19" "e0 = 29" using a v by simp_all
  show ?thesis using h v b c d r unfolding s by blast
qed

text \<open>
  C1 as stated fails at the end of a file: with 11 rows and the current line the last of
  50, the window holds the 6 lines from index 44 on, not \<open>min(11, 50) = 11\<close>. It also
  fails where the row count is just below an integer: with a line height of
  \<^verbatim>\<open>1.1\<close> there are 29 body rows, and at line 32 of 60 the window holds 30 lines.
\<close>

theorem display_lines_length_counterexample:
  "length (display_lines 11 (replicate 50 ''code'') 50) = 6
   \<and> min (nat (py_int 11)) (length (replicate 50 ''code'')) = 11
   \<and> (case calc_sizes env0 cfg_edge of
        Inl e \<Rightarrow> False
      | Inr s \<Rightarrow>
          body_rows s = 29
          \<and> naive_bounds (body_rows_f s) 31 = (16, 46)
          \<and> length (display_lines (body_rows_f s) (replicate 60 ''code'') 32) = 30)"
  by code_simp

lemma py_round_squeeze:
  assumes "a \<le> x" and "x \<le> b" and "py_round a = n" and "py_round b = n"
  shows "py_round x = n"
  using py_round_mono [OF assms(1)] py_round_mono [OF assms(2)] assms(3,4) by simp

lemma fl_squeeze_half:
  assumes "of_int a / 2 \<le> x" and "x \<le> of_int b / 2" and "\<bar>a\<bar> < 2 ^ 53" and "\<bar>b\<bar> < 2 ^ 53"
  shows "of_int a / 2 \<le> fl x \<and> fl x \<le> of_int b / 2"
  using fl_mono [OF assms(1)] fl_mono [OF assms(2)]
  unfolding fl_half [OF assms(3)] fl_half [OF assms(4)] by simp

text \<open>
  C5 (as amended). With 11 body rows (any unrounded row count from 11 up to, but not
  including, 12) and current line 2, the naive bounds are \<open>-4\<close> and \<open>6\<close>; after the shift
  the window is the slice from 0 to 10, that is the first 10 lines of the file (fewer if
  the file is shorter), and it includes the line with 0-based index 1.
\<close>

theorem viewport_near_top:
  assumes "11 \<le> R" and "R < 12" and "2 \<le> length lines"
  shows "naive_bounds R 1 = (- 4, 6)
       \<and> window_bounds R 1 = (0, 10)
       \<and> display_lines R lines 2 = take 10 (hlines lines 1)
       \<and> length (display_lines R lines 2) = min 10 (length lines)
       \<and> (lines ! 1, True) \<in> set (display_lines R lines 2)"
proof -
  define side where "side = fl (fl (R - 1) / 2)"
  have "of_int 20 / 2 \<le> R - 1" "R - 1 \<le> of_int 22 / 2" using assms(1,2) by simp_all
  then have "of_int 20 / 2 \<le> fl (R - 1) \<and> fl (R - 1) \<le> of_int 22 / 2"
    by (rule fl_squeeze_half) simp_all
  then have "of_int 10 / 2 \<le> fl (R - 1) / 2" "fl (R - 1) / 2 \<le> of_int 11 / 2" by simp_all
  then have "of_int 10 / 2 \<le> side \<and> side \<le> of_int 11 / 2"
    unfolding side_def by (rule fl_squeeze_half) simp_all
  then have sd: "5 \<le> side" "side \<le> 11 / 2" by simp_all
  have "of_int (- 9) / 2 \<le> of_int 1 - side" "of_int 1 - side \<le> of_int (- 8) / 2"
    using sd by simp_all
  then have "of_int (- 9) / 2 \<le> fl (of_int 1 - side) \<and> fl (of_int 1 - side) \<le> of_int (- 8) / 2"
    by (rule fl_squeeze_half) simp_all
  then have "- (9 / 2) \<le> fl (of_int 1 - side)" "fl (of_int 1 - side) \<le> - 4" by simp_all
  moreover have "py_round (- (9 / 2)) = - 4" "py_round (- 4) = - 4" by code_simp+
  ultimately have a: "py_round (fl (of_int 1 - side)) = - 4" by (rule py_round_squeeze)
  have "of_int 12 / 2 \<le> of_int 1 + side" "of_int 1 + side \<le> of_int 13 / 2"
    using sd by simp_all
  then have "of_int 12 / 2 \<le> fl (of_int 1 + side) \<and> fl (of_int 1 + side) \<le> of_int 13 / 2"
    by (rule fl_squeeze_half) simp_all
  then have "6 \<le> fl (of_int 1 + side)" "fl (of_int 1 + side) \<le> 13 / 2" by simp_all
  moreover have "py_round 6 = 6" "py_round (13 / 2) = 6" by code_simp+
  ultimately have b: "py_round (fl (of_int 1 + side)) = 6" by (rule py_round_squeeze)
  have n: "naive_bounds R 1 = (- 4, 6)"
    using a b by (simp add: naive_bounds_def Let_def side_def)
  have w: "window_bounds R 1 = (0, 10)"
    by (simp add: window_bounds_def n)
  have d: "display_lines R lines 2 = take 10 (hlines lines 1)"
    by (simp add: display_lines_def Let_def w py_slice_def slice_bound_def length_hlines min_def)
  have l: "length (display_lines R lines 2) = min 10 (length lines)"
    by (simp add: d length_hlines)
  have "hlines lines 1 ! nat 1 = (lines ! nat 1, True)"
    using assms(3) by (intro hlines_nth) simp_all
  then have hl: "hlines lines 1 ! 1 = (lines ! 1, True)" by simp
  have "1 < length (take 10 (hlines lines 1))"
    using assms(3) by (simp add: length_hlines)
  then have "take 10 (hlines lines 1) ! 1 \<in> set (take 10 (hlines lines 1))"
    by (rule nth_mem)
  moreover have "take 10 (hlines lines 1) ! 1 = (lines ! 1, True)"
    using hl by simp
  ultimately have m: "(lines ! 1, True) \<in> set (display_lines R lines 2)"
    unfolding d by (simp only:)
  show ?thesis using n w d l m by blast
qed

theorem viewport_near_top_witness:
  "(11::rat) \<le> 11 \<and> (11::rat) < 12 \<and> 2 \<le> length (replicate 50 ''code'')
   \<and> naive_bounds 11 1 = (- 4, 6)
   \<and> window_bounds 11 1 = (0, 10)
   \<and> display_lines 11 (replicate 50 ''code'') 2 = take 10 (hlines (replicate 50 ''code'') 1)
   \<and> length (display_lines 11 (replicate 50 ''code'') 2) = min 10 (length (replicate 50 ''code''))
   \<and> (replicate 50 ''code'' ! 1, True) \<in> set (display_lines 11 (replicate 50 ''code'') 2)"
proof -
  have h: "(11::rat) \<le> 11" "(11::rat) < 12" "2 \<le> length (replicate 50 ''code'')"
    by simp_all
  from h viewport_near_top [OF h] show ?thesis by blast
qed

text \<open>
  C5 as stated gives the end index 8 and a window of 9 lines; the code gives 10 and 10.
\<close>

theorem viewport_near_top_counterexample:
  "window_bounds 11 1 \<noteq> (0, 8) \<and> length (display_lines 11 (replicate 50 ''code'') 2) \<noteq> 9"
  by code_simp

section \<open>Claims about the output panel and the geometry\<close>

lemma output_lines_positive:
  assumes "1 \<le> rows"
  shows "output_lines rows lines = drop (length lines - min (nat rows) (length lines)) lines"
proof -
  have "nat (slice_bound (int (length lines)) (- rows)) = length lines - min (nat rows) (length lines)"
    using assms by (auto simp: slice_bound_def)
  then show ?thesis by (simp add: output_lines_def py_slice_from_def)
qed

lemma output_lines_zero: "output_lines 0 lines = lines"
  by (simp add: output_lines_def py_slice_from_def slice_bound_def)

text \<open>
  C9. On an open frame with calculated sizes, \<^verbatim>\<open>draw_output\<close> writes the joined
  lines \<^verbatim>\<open>lines[-out_rows:]\<close> through one painter request. If \<open>out_rows\<close> is at
  least 1 these are exactly the last \<open>min(out_rows, n)\<close> of the \<open>n\<close> lines; if
  \<open>out_rows\<close> is 0 they are all \<open>n\<close> lines.
\<close>

theorem draw_output_last_lines:
  assumes "sizes r = Some s" and "frame r = Some cv"
  shows "draw_output ev lines r =
           Inr (r\<lparr>frame := Some (cv @ [Painted (out_box s)
                  (PWrite (join [CHR 0x0A] (output_lines (out_rows s) lines)) False None None)])\<rparr>)
       \<and> (1 \<le> out_rows s \<longrightarrow>
            output_lines (out_rows s) lines
              = drop (length lines - min (nat (out_rows s)) (length lines)) lines
            \<and> length (output_lines (out_rows s) lines) = min (nat (out_rows s)) (length lines))
       \<and> (out_rows s = 0 \<longrightarrow> output_lines (out_rows s) lines = lines)"
proof -
  have a: "draw_output ev lines r =
           Inr (r\<lparr>frame := Some (cv @ [Painted (out_box s)
                  (PWrite (join [CHR 0x0A] (output_lines (out_rows s) lines)) False None None)])\<rparr>)"
    using assms by (simp add: draw_output_def paint_def)
  have b: "output_lines (out_rows s) lines
             = drop (length lines - min (nat (out_rows s)) (length lines)) lines
           \<and> length (output_lines (out_rows s) lines) = min (nat (out_rows s)) (length lines)"
    if "1 \<le> out_rows s"
    using output_lines_positive [OF that, of lines] by auto
  have c: "output_lines (out_rows s) lines = lines" if "out_rows s = 0"
    using that by (simp add: output_lines_zero)
  show ?thesis using a b c by blast
qed


theorem draw_output_last_lines_witness:
  "sizes started0 = Some (the (sizes started0)) \<and> frame started0 = Some (the (frame started0))
   \<and> 1 \<le> out_rows (the (sizes started0))
   \<and> draw_output env0 [''a'', ''b'', ''c'', ''d'', ''e'', ''f''] started0 =
           Inr (started0\<lparr>frame := Some (the (frame started0) @ [Painted (out_box (the (sizes started0)))
                  (PWrite (join [CHR 0x0A] (output_lines (out_rows (the (sizes started0))) [''a'', ''b'', ''c'', ''d'', ''e'', ''f''])) False None None)])\<rparr>)
   \<and> output_lines (out_rows (the (sizes started0))) [''a'', ''b'', ''c'', ''d'', ''e'', ''f'']
        = [''c'', ''d'', ''e'', ''f'']
   \<and> sizes started_flat = Some (the (sizes started_flat))
   \<and> frame started_flat = Some (the (frame started_flat))
   \<and> out_rows (the (sizes started_flat)) = 0
   \<and> output_lines (out_rows (the (sizes started_flat))) [''a'', ''b'', ''c'', ''d'', ''e'', ''f'']
        = [''a'', ''b'', ''c'', ''d'', ''e'', ''f'']"
proof -
  let ?L = "[''a'', ''b'', ''c'', ''d'', ''e'', ''f'']"
  have h: "sizes started0 = Some (the (sizes started0))" "frame started0 = Some (the (frame started0))"
    by code_simp+
  have g: "sizes started_flat = Some (the (sizes started_flat))"
    "frame started_flat = Some (the (frame started_flat))"
    by code_simp+
  have p: "1 \<le> out_rows (the (sizes started0))" by code_simp
  have z: "out_rows (the (sizes started_flat)) = 0" by code_simp
  have e: "drop (length ?L - min (nat (out_rows (the (sizes started0)))) (length ?L)) ?L
           = [''c'', ''d'', ''e'', ''f'']"
    by code_simp
  from draw_output_last_lines [OF h, of env0 ?L] p e
  have a: "draw_output env0 ?L started0 =
           Inr (started0\<lparr>frame := Some (the (frame started0) @ [Painted (out_box (the (sizes started0)))
                  (PWrite (join [CHR 0x0A] (output_lines (out_rows (the (sizes started0))) ?L)) False None None)])\<rparr>)"
    and b: "output_lines (out_rows (the (sizes started0))) ?L = [''c'', ''d'', ''e'', ''f'']"
    by simp_all
  from draw_output_last_lines [OF g, of env0 ?L] z
  have c: "output_lines (out_rows (the (sizes started_flat))) ?L = ?L"
    by blast
  show ?thesis using h g p z a b c by blast
qed

lemma py_round_div_bounds:
  assumes "0 < w"
  shows "2 * (py_round (of_int a / of_int w) * w) \<le> 2 * a + w
       \<and> 2 * a - w \<le> 2 * (py_round (of_int a / of_int w) * w)"
proof -
  define W :: rat where "W = of_int w"
  define A :: rat where "A = of_int a"
  define N :: rat where "N = of_int (py_round (A / W))"
  have wpos: "0 < W" using assms by (simp add: W_def)
  have "N \<le> A / W + 1 / 2" unfolding N_def by (rule py_round_le)
  then have "N * W \<le> (A / W + 1 / 2) * W"
    using wpos by (simp only: mult_le_cancel_right_pos)
  also have "(A / W + 1 / 2) * W = A + W / 2"
    using wpos by (simp add: field_simps)
  finally have u: "2 * (N * W) \<le> 2 * A + W" by simp
  have "A / W - 1 / 2 \<le> N" unfolding N_def by (rule py_round_ge)
  then have "(A / W - 1 / 2) * W \<le> N * W"
    using wpos by (simp only: mult_le_cancel_right_pos)
  moreover have "(A / W - 1 / 2) * W = A - W / 2"
    using wpos by (simp add: field_simps)
  ultimately have l: "2 * A - W \<le> 2 * (N * W)" by simp
  have "(of_int (2 * (py_round (of_int a / of_int w) * w)) :: rat) \<le> of_int (2 * a + w)"
    using u by (simp add: N_def A_def W_def)
  then have u': "2 * (py_round (of_int a / of_int w) * w) \<le> 2 * a + w"
    by (simp only: of_int_le_iff)
  have "(of_int (2 * a - w) :: rat) \<le> of_int (2 * (py_round (of_int a / of_int w) * w))"
    using l by (simp add: N_def A_def W_def)
  then have l': "2 * a - w \<le> 2 * (py_round (of_int a / of_int w) * w)"
    by (simp only: of_int_le_iff)
  show ?thesis using u' l' by simp
qed

text \<open>
  C3 (as amended). With a positive glyph width \<open>w\<close> and a non-zero line height,
  \<^verbatim>\<open>calc_sizes\<close> succeeds and the code-panel column count is the division of the
  available width \<open>var_x - 2 * sect_padding\<close> by \<open>w\<close> rounded to the nearest integer
  (ties to even), so that \<open>body_cols * w\<close> differs from the available width by at most
  half a glyph.
\<close>

theorem calc_sizes_body_cols:
  assumes "textsize ev BodyFont ''A'' = (w, h)" and "0 < w"
    and "textsize ev BodyFont [CHR 0x60, CHR 0x5E, CHR ''A'', CHR ''g''] = (mw, mh)"
    and "of_int mh * cfg_line_height c \<noteq> 0"
  shows "\<exists>s. calc_sizes ev c = Inr s
           \<and> body_cols s = py_round (of_int (cfg_var_x c - 2 * cfg_sect_padding c) / of_int w)
           \<and> 2 * (body_cols s * w) - w \<le> 2 * (cfg_var_x c - 2 * cfg_sect_padding c)
           \<and> 2 * (cfg_var_x c - 2 * cfg_sect_padding c) \<le> 2 * (body_cols s * w) + w"
proof -
  let ?a = "cfg_var_x c - 2 * cfg_sect_padding c"
  let ?q = "of_int ?a / of_int w :: rat"
  let ?n = "py_round ?q"
  have wpos: "(0::rat) < of_int w" using assms(2) by simp
  obtain hw hh where hd: "textsize ev HeadFont ''A'' = (hw, hh)"
    by (cases "textsize ev HeadFont ''A''")
  obtain cw ch where cp: "textsize ev CaptionFont ''1p'' = (cw, ch)"
    by (cases "textsize ev CaptionFont ''1p''")
  have w0: "w \<noteq> 0" using assms(2) by simp
  obtain s where s: "calc_sizes ev c = Inr s" and bc: "body_cols s = ?n"
    using assms(1,3,4) hd cp w0 by (simp add: calc_sizes_def Let_def fl_eq_0_iff mult.commute)
  have "2 * (?n * w) \<le> 2 * ?a + w \<and> 2 * ?a - w \<le> 2 * (?n * w)"
    using assms(2) by (rule py_round_div_bounds)
  then show ?thesis using s bc by (intro exI [of _ s]) simp
qed

theorem calc_sizes_body_cols_witness:
  "textsize env0 BodyFont ''A'' = (8, 16) \<and> (0::int) < 8
   \<and> (\<exists>s. calc_sizes env0 cfg0 = Inr s
           \<and> body_cols s = 102
           \<and> 2 * (body_cols s * 8) - 8 \<le> 2 * (cfg_var_x cfg0 - 2 * cfg_sect_padding cfg0)
           \<and> 2 * (cfg_var_x cfg0 - 2 * cfg_sect_padding cfg0) \<le> 2 * (body_cols s * 8) + 8)"
proof -
  have h: "textsize env0 BodyFont ''A'' = (8, 16)" "(0::int) < 8"
    "textsize env0 BodyFont [CHR 0x60, CHR 0x5E, CHR ''A'', CHR ''g''] = (32, 16)"
    "of_int 16 * cfg_line_height cfg0 \<noteq> 0"
    by (simp_all add: env0_def cfg0_def)
  have q: "py_round (of_int (cfg_var_x cfg0 - 2 * cfg_sect_padding cfg0) / of_int 8) = 102"
    by code_simp
  from calc_sizes_body_cols [OF h] show ?thesis using h(1) unfolding q by simp
qed

text \<open>
  C3 as stated fails for the 1280 pixel wide canvas with 8 pixel glyphs: 813 pixels are
  available, the column count is \<open>round(101.625) = 102\<close>, not the floor 101, and 102
  columns take 816 pixels.
\<close>

theorem calc_sizes_body_cols_counterexample:
  "(case calc_sizes env0 cfg0 of
      Inl e \<Rightarrow> False
    | Inr s \<Rightarrow>
        body_cols s = 102
        \<and> \<lfloor>(of_int (cfg_var_x cfg0 - 2 * cfg_sect_padding cfg0) :: rat) / 8\<rfloor> = 101
        \<and> \<not> body_cols s * 8 \<le> cfg_var_x cfg0 - 2 * cfg_sect_padding cfg0)"
  by code_simp

section \<open>Finishing a frame\<close>

lemma finish_frame_idle: "frame r = None \<Longrightarrow> finish_frame ev vs r = Inr r"
  by (simp add: finish_frame_def)

lemma finish_frame_plain:
  assumes "frame r = Some cv"
  shows "finish_frame ev None r =
           Inr (r\<lparr>frame := Some (cv @ (if cfg_watermark (cfg r) then [watermark_op ev (cfg r)] else [])),
                  encoder := (encoder r)\<lparr>enc_written := enc_written (encoder r)
                     @ [cv @ (if cfg_watermark (cfg r) then [watermark_op ev (cfg r)] else [])]\<rparr>\<rparr>)"
  using assms
  by (simp add: finish_frame_def and_then_def draw_watermark_def draw_on_def encoder_write_def)

lemma intro_frame_eq:
  assumes "cfg_intro_text (cfg r) = Some t"
  shows "intro_frame ev r =
           Inr (r\<lparr>frame := Some (intro_canvas ev (cfg r) t),
                  encoder := (encoder r)\<lparr>enc_written := enc_written (encoder r)
                     @ [intro_canvas ev (cfg r) t]\<rparr>\<rparr>)"
proof -
  let ?title = "centered_text ev (of_int (cfg_w (cfg r)) / 2) (of_int (cfg_h (cfg r)) / 2) t
                  IntroFont (cfg_fg_heading (cfg r))"
  have d: "draw_text_center ev (of_int (cfg_w (cfg r)) / 2) (of_int (cfg_h (cfg r)) / 2) t
             IntroFont (cfg_fg_heading (cfg r)) (new_frame r) = Inr (r\<lparr>frame := Some [?title]\<rparr>)"
    by (simp add: draw_text_center_def draw_on_def new_frame_def)
  have f: "frame (r\<lparr>frame := Some [?title]\<rparr>) = Some [?title]" by simp
  show ?thesis
    using assms by (simp add: intro_frame_def d and_then_def finish_frame_plain [OF f] intro_canvas_def)
qed

lemma intro_frames_eq:
  assumes "cfg_intro_text (cfg r) = Some t"
  shows "\<exists>r'. intro_frames ev n r = Inr r' \<and> cfg r' = cfg r
            \<and> enc_kind (encoder r') = enc_kind (encoder r)
            \<and> enc_stopped (encoder r') = enc_stopped (encoder r)
            \<and> enc_written (encoder r') = enc_written (encoder r) @ replicate n (intro_canvas ev (cfg r) t)"
  using assms
proof (induction n arbitrary: r)
  case 0
  then show ?case by simp
next
  case (Suc n)
  let ?r1 = "r\<lparr>frame := Some (intro_canvas ev (cfg r) t),
               encoder := (encoder r)\<lparr>enc_written := enc_written (encoder r) @ [intro_canvas ev (cfg r) t]\<rparr>\<rparr>"
  have s: "intro_frame ev r = Inr ?r1" using Suc.prems by (rule intro_frame_eq)
  have c: "cfg_intro_text (cfg ?r1) = Some t" using Suc.prems by simp
  from Suc.IH [OF c] obtain r' where
    r': "intro_frames ev n ?r1 = Inr r'" "cfg r' = cfg ?r1"
        "enc_kind (encoder r') = enc_kind (encoder ?r1)"
        "enc_stopped (encoder r') = enc_stopped (encoder ?r1)"
        "enc_written (encoder r') = enc_written (encoder ?r1) @ replicate n (intro_canvas ev (cfg ?r1) t)"
    by blast
  have "intro_frames ev (Suc n) r = Inr r'" using s r'(1) by (simp add: and_then_def)
  moreover have "enc_written (encoder r') = enc_written (encoder r) @ replicate (Suc n) (intro_canvas ev (cfg r) t)"
    using r'(5) by (simp add: replicate_app_Cons_same)
  ultimately show ?case using r'(2,3,4) by simp
qed

section \<open>The variable panels and the anchors\<close>

lemma paint_open:
  assumes "frame r = Some cv"
  shows "paint box ws r = Inr (r\<lparr>frame := Some (cv @ map (Painted box) ws)\<rparr>)"
  using assms by (cases "ws = []") (simp_all add: paint_def)

text \<open>The referenced-value position after the inner loop.\<close>

lemma values_loop_keeps:
  assumes "Some var \<noteq> vs_ref st \<or> (\<forall>(i, v) \<in> set xs. Suc i \<noteq> n)"
  shows "snd (values_loop ev box st var n xs (ws, rv)) = rv"
  using assms by (induction xs arbitrary: ws rv) (auto simp: Let_def)

lemma values_loop_sets:
  assumes "(\<exists>ws'. rv = Some (irepr_pos ev box ws')) \<or> (Some var = vs_ref st \<and> (\<exists>(i, v) \<in> set xs. Suc i = n))"
  shows "\<exists>ws'. snd (values_loop ev box st var n xs (ws, rv)) = Some (irepr_pos ev box ws')"
  using assms
proof (induction xs arbitrary: ws rv)
  case Nil
  then show ?case by simp
next
  case (Cons x xs)
  obtain i v where x: "x = (i, v)" by (cases x)
  show ?case
  proof (cases "Some var = vs_ref st \<and> Suc i = n")
    case True
    then show ?thesis unfolding x by (simp add: Let_def) (rule Cons.IH, blast)
  next
    case False
    then have p: "(\<exists>ws'. rv = Some (irepr_pos ev box ws')) \<or> (Some var = vs_ref st \<and> (\<exists>(i, v) \<in> set xs. Suc i = n))"
      using Cons.prems unfolding x by auto
    have "values_loop ev box st var n (x # xs) (ws, rv)
            = values_loop ev box st var n xs
                (ws @ [PWrite bullet False None None] @ [PIRepr v None False None], rv)"
      unfolding x using False by (auto simp: Let_def)
    then show ?thesis using Cons.IH [OF p] by simp
  qed
qed

lemma enumerate_last_index:
  "(\<exists>(i, v) \<in> set (enumerate 0 vals). Suc i = length vals) \<longleftrightarrow> vals \<noteq> []"
proof
  assume "\<exists>(i, v) \<in> set (enumerate 0 vals). Suc i = length vals"
  then show "vals \<noteq> []" by auto
next
  assume "vals \<noteq> []"
  then have "(length vals - 1, vals ! (length vals - 1)) \<in> set (enumerate 0 vals)"
    by (simp add: in_set_enumerate_eq)
  moreover have "Suc (length vals - 1) = length vals" using \<open>vals \<noteq> []\<close> by simp
  ultimately show "\<exists>(i, v) \<in> set (enumerate 0 vals). Suc i = length vals" by blast
qed

lemma other_vars_loop_keeps:
  assumes "\<forall>e \<in> set xs. \<not> captures st e"
  shows "snd (other_vars_loop ev box st xs (ws, rv)) = rv"
  using assms
proof (induction xs arbitrary: ws rv)
  case Nil
  then show ?case by simp
next
  case (Cons x xs)
  obtain idx var vals where x: "x = (idx, var, vals)" by (cases x)
  have rest: "\<forall>e \<in> set xs. \<not> captures st e" using Cons.prems by simp
  show ?case
  proof (cases "hist_ignored vals")
    case True
    then show ?thesis unfolding x using Cons.IH [OF rest] by simp
  next
    case False
    then have k: "Some var \<noteq> vs_ref st \<or> hist_values vals = []"
      using Cons.prems unfolding x captures_def by auto
    have keep: "snd (values_loop ev box st var (length (hist_values vals))
                 (enumerate 0 (hist_values vals)) (ws', rv)) = rv" for ws'
      using k enumerate_last_index [of "hist_values vals"]
      by (intro values_loop_keeps) auto
    obtain a b where ab: "values_loop ev box st var (length (hist_values vals))
                 (enumerate 0 (hist_values vals))
                 ((if 0 < idx then ws @ [PWrite separator False None None] else ws)
                    @ [PWrite (var @ '':'') False None None], rv) = (a, b)"
      by (cases "values_loop ev box st var (length (hist_values vals))
                 (enumerate 0 (hist_values vals))
                 ((if 0 < idx then ws @ [PWrite separator False None None] else ws)
                    @ [PWrite (var @ '':'') False None None], rv)")
    have "b = rv" using keep [of "(if 0 < idx then ws @ [PWrite separator False None None] else ws)
                    @ [PWrite (var @ '':'') False None None]"] ab by simp
    then show ?thesis unfolding x using False ab Cons.IH [OF rest, of a rv]
      by (simp add: Let_def)
  qed
qed

lemma other_vars_loop_sets:
  assumes "(\<exists>ws'. rv = Some (irepr_pos ev box ws')) \<or> (\<exists>e \<in> set xs. captures st e)"
  shows "\<exists>ws'. snd (other_vars_loop ev box st xs (ws, rv)) = Some (irepr_pos ev box ws')"
  using assms
proof (induction xs arbitrary: ws rv)
  case Nil
  then show ?case by simp
next
  case (Cons x xs)
  obtain idx var vals where x: "x = (idx, var, vals)" by (cases x)
  show ?case
  proof (cases "hist_ignored vals")
    case True
    then have "\<not> captures st x" unfolding x captures_def by simp
    then have "(\<exists>ws'. rv = Some (irepr_pos ev box ws')) \<or> (\<exists>e \<in> set xs. captures st e)"
      using Cons.prems by auto
    then show ?thesis unfolding x using True Cons.IH by simp
  next
    case False
    let ?ws2 = "(if 0 < idx then ws @ [PWrite separator False None None] else ws)
                    @ [PWrite (var @ '':'') False None None]"
    obtain a b where ab: "values_loop ev box st var (length (hist_values vals))
                 (enumerate 0 (hist_values vals)) (?ws2, rv) = (a, b)"
      by (cases "values_loop ev box st var (length (hist_values vals))
                 (enumerate 0 (hist_values vals)) (?ws2, rv)")
    have step: "other_vars_loop ev box st (x # xs) (ws, rv) = other_vars_loop ev box st xs (a, b)"
      unfolding x using False ab by (simp add: Let_def)
    show ?thesis
    proof (cases "(\<exists>ws'. rv = Some (irepr_pos ev box ws')) \<or> captures st x")
      case True
      then have "(\<exists>ws'. rv = Some (irepr_pos ev box ws'))
                 \<or> (Some var = vs_ref st \<and> (\<exists>(i, v) \<in> set (enumerate 0 (hist_values vals)). Suc i = length (hist_values vals)))"
        unfolding x captures_def using enumerate_last_index [of "hist_values vals"] by auto
      then have "\<exists>ws'. snd (values_loop ev box st var (length (hist_values vals))
                 (enumerate 0 (hist_values vals)) (?ws2, rv)) = Some (irepr_pos ev box ws')"
        by (rule values_loop_sets)
      then have "\<exists>ws'. b = Some (irepr_pos ev box ws')" using ab by simp
      then show ?thesis unfolding step by (intro Cons.IH) blast
    next
      case False
      then have "\<exists>e \<in> set xs. captures st e" using Cons.prems by auto
      then show ?thesis unfolding step by (intro Cons.IH) blast
    qed
  qed
qed

lemma ref_captured_enumerate:
  "ref_captured st \<longleftrightarrow> (\<exists>e \<in> set (enumerate 0 (vs_other_history st)). captures st e)"
proof -
  have "(\<exists>e \<in> set (enumerate k xs). captures st e)
          \<longleftrightarrow> (\<exists>(var, vals) \<in> set xs. \<not> hist_ignored vals \<and> Some var = vs_ref st \<and> hist_values vals \<noteq> [])"
    for k and xs :: "(string \<times> history) list"
    by (induction xs arbitrary: k) (auto simp: captures_def)
  then show ?thesis by (simp add: ref_captured_def list_ex_iff)
qed

lemma draw_variables_eq:
  assumes "sizes r = Some s" and "frame r = Some cv"
    and "other_vars_loop ev (ovars_box s) st (enumerate 0 (vs_other_history st)) ([], ref_var r) = (ws, rv)"
  shows "draw_variables ev st r =
     (if vs_ref st = None
      then Inr (r\<lparr>last_var := Some (painter_pos ev (vars_box s) (last_var_writes st)),
                   ref_var := rv, frame := Some (cv @ painted_vars s st ws)\<rparr>)
      else case rv of
             None \<Rightarrow> Inl TypeError
           | Some dst \<Rightarrow>
               Inr (r\<lparr>last_var := Some (painter_pos ev (vars_box s) (last_var_writes st)),
                      ref_var := rv,
                      frame := Some (cv @ painted_vars s st ws
                        @ [connector ev (cfg r) (vs_color st)
                             (painter_pos ev (vars_box s) (last_var_writes st)) dst])\<rparr>))"
proof -
  let ?src = "painter_pos ev (vars_box s) (last_var_writes st)"
  let ?lw = "last_var_writes st @ [PNewLine, PWrite (vs_text st) False None None]"
  have f1: "frame (r\<lparr>ref_var := rv\<rparr>) = Some cv" using assms(2) by simp
  have o: "draw_other_vars ev st r = Inr (r\<lparr>ref_var := rv, frame := Some (cv @ map (Painted (ovars_box s)) ws)\<rparr>)"
    using assms(1,3) by (simp add: draw_other_vars_def paint_open [OF f1])
  let ?r1 = "r\<lparr>ref_var := rv, frame := Some (cv @ map (Painted (ovars_box s)) ws)\<rparr>"
  have f2: "frame (?r1\<lparr>last_var := Some ?src\<rparr>) = Some (cv @ map (Painted (ovars_box s)) ws)" by simp
  have l: "draw_last_var ev st ?r1 =
             Inr (r\<lparr>last_var := Some ?src, ref_var := rv, frame := Some (cv @ painted_vars s st ws)\<rparr>)"
    using assms(1) by (simp add: draw_last_var_def paint_open [OF f2] painted_vars_def)
  let ?r2 = "r\<lparr>last_var := Some ?src, ref_var := rv, frame := Some (cv @ painted_vars s st ws)\<rparr>"
  have v: "draw_var_ref ev st ?r2 =
             (case rv of None \<Rightarrow> Inl TypeError
              | Some dst \<Rightarrow> Inr (r\<lparr>last_var := Some ?src, ref_var := rv,
                     frame := Some (cv @ painted_vars s st ws @ [connector ev (cfg r) (vs_color st) ?src dst])\<rparr>))"
    by (simp add: draw_var_ref_def draw_on_def split: option.splits)
  show ?thesis
    by (simp add: draw_variables_def o l v and_then_def)
qed

lemma draw_variables_needs_sizes: "sizes r = None \<Longrightarrow> draw_variables ev st r = Inl TypeError"
  by (simp add: draw_variables_def draw_other_vars_def and_then_def)

lemma draw_variables_keeps:
  assumes "frame r = Some cv" and "draw_variables ev st r = Inr r1"
  shows "cfg r1 = cfg r \<and> encoder r1 = encoder r \<and> sizes r1 = sizes r \<and> (\<exists>cv1. frame r1 = Some cv1)"
proof (cases "sizes r")
  case None
  then show ?thesis using assms(2) by (simp add: draw_variables_needs_sizes)
next
  case (Some s)
  obtain ws rv where w:
    "other_vars_loop ev (ovars_box s) st (enumerate 0 (vs_other_history st)) ([], ref_var r) = (ws, rv)"
    by (cases "other_vars_loop ev (ovars_box s) st (enumerate 0 (vs_other_history st)) ([], ref_var r)")
  show ?thesis
    using assms(2) unfolding draw_variables_eq [OF Some assms(1) w]
    by (auto split: if_splits option.splits)
qed

lemma finish_frame_open:
  assumes "frame r = Some cv" and "finish_frame ev vs r = Inr r'"
  shows "\<exists>cv'. frame r' = Some (cv' @ (if cfg_watermark (cfg r) then [watermark_op ev (cfg r)] else []))
           \<and> enc_written (encoder r') = enc_written (encoder r)
                @ [cv' @ (if cfg_watermark (cfg r) then [watermark_op ev (cfg r)] else [])]
           \<and> enc_kind (encoder r') = enc_kind (encoder r)
           \<and> enc_stopped (encoder r') = enc_stopped (encoder r)
           \<and> cfg r' = cfg r"
proof (cases vs)
  case None
  then show ?thesis using assms(2) unfolding None finish_frame_plain [OF assms(1)] by auto
next
  case (Some st)
  obtain r1 where d: "draw_variables ev st r = Inr r1"
    using assms by (cases "draw_variables ev st r") (simp_all add: finish_frame_def Some and_then_def)
  from draw_variables_keeps [OF assms(1) d] obtain cv1 where
    k: "cfg r1 = cfg r" "encoder r1 = encoder r" "frame r1 = Some cv1" by blast
  have "finish_frame ev (Some st) r = finish_frame ev None r1"
    using assms(1) d k(3) by (simp add: finish_frame_def and_then_def)
  then have "finish_frame ev None r1 = Inr r'" using assms(2) Some by simp
  then show ?thesis unfolding finish_frame_plain [OF k(3)] using k(1,2) by auto
qed

section \<open>Claims about the intro and the construction\<close>

lemma write_intro_eq:
  assumes "cfg_intro_text (cfg r) = Some t"
  shows "\<exists>r'. write_intro ev r = Inr r' \<and> cfg r' = cfg r
            \<and> enc_kind (encoder r') = enc_kind (encoder r)
            \<and> enc_stopped (encoder r') = enc_stopped (encoder r)
            \<and> enc_written (encoder r') = enc_written (encoder r)
                 @ replicate (nat (py_round (fl (cfg_intro_time (cfg r) * cfg_fps (cfg r)))))
                     (intro_canvas ev (cfg r) t)"
  unfolding write_intro_def using assms by (rule intro_frames_eq)

text \<open>
  C10. With the watermark enabled, \<^verbatim>\<open>write_intro\<close> succeeds and every frame it hands
  to the encoder is the centred title followed by the watermark: each pass of its loop
  is \<^verbatim>\<open>finish_frame(None)\<close> on a new frame that holds the title.
\<close>

theorem intro_frames_watermarked:
  assumes "cfg_watermark (cfg r)" and "cfg_intro_text (cfg r) = Some t"
  shows "intro_frame ev r =
           finish_frame ev None (r\<lparr>frame := Some [centered_text ev (of_int (cfg_w (cfg r)) / 2)
              (of_int (cfg_h (cfg r)) / 2) t IntroFont (cfg_fg_heading (cfg r))]\<rparr>)
       \<and> (\<exists>r'. write_intro ev r = Inr r'
             \<and> enc_written (encoder r') = enc_written (encoder r)
                  @ replicate (nat (py_round (fl (cfg_intro_time (cfg r) * cfg_fps (cfg r)))))
                      [centered_text ev (of_int (cfg_w (cfg r)) / 2) (of_int (cfg_h (cfg r)) / 2) t
                         IntroFont (cfg_fg_heading (cfg r)),
                       watermark_op ev (cfg r)])"
proof -
  have a: "intro_frame ev r =
           finish_frame ev None (r\<lparr>frame := Some [centered_text ev (of_int (cfg_w (cfg r)) / 2)
              (of_int (cfg_h (cfg r)) / 2) t IntroFont (cfg_fg_heading (cfg r))]\<rparr>)"
    using assms(2)
    by (simp add: intro_frame_def draw_text_center_def draw_on_def new_frame_def and_then_def)
  have c: "intro_canvas ev (cfg r) t =
             [centered_text ev (of_int (cfg_w (cfg r)) / 2) (of_int (cfg_h (cfg r)) / 2) t
                IntroFont (cfg_fg_heading (cfg r)), watermark_op ev (cfg r)]"
    using assms(1) by (simp add: intro_canvas_def)
  show ?thesis using a write_intro_eq [OF assms(2), of ev] unfolding c by blast
qed

theorem intro_frames_watermarked_witness:
  "cfg_watermark (cfg (fresh mp4 cfg_intro)) \<and> cfg_intro_text (cfg (fresh mp4 cfg_intro)) = Some ''vardbg''
   \<and> (\<exists>r'. write_intro env0 (fresh mp4 cfg_intro) = Inr r'
         \<and> enc_written (encoder r') =
             [[DrawText (616, 352) ''vardbg'' IntroFont (Some ''fg_heading''),
               DrawText (1108, 684) ''Generated by vardbg'' CaptionFont (Some ''fg_watermark'')],
              [DrawText (616, 352) ''vardbg'' IntroFont (Some ''fg_heading''),
               DrawText (1108, 684) ''Generated by vardbg'' CaptionFont (Some ''fg_watermark'')]])"
proof -
  let ?r = "fresh mp4 cfg_intro"
  have h: "cfg_watermark (cfg ?r)" "cfg_intro_text (cfg ?r) = Some ''vardbg''"
    by (simp_all add: fresh_def cfg_intro_def cfg0_def)
  have e: "enc_written (encoder ?r)
             @ replicate (nat (py_round (fl (cfg_intro_time (cfg ?r) * cfg_fps (cfg ?r)))))
                 [centered_text env0 (of_int (cfg_w (cfg ?r)) / 2) (of_int (cfg_h (cfg ?r)) / 2) ''vardbg''
                    IntroFont (cfg_fg_heading (cfg ?r)),
                  watermark_op env0 (cfg ?r)]
           = [[DrawText (616, 352) ''vardbg'' IntroFont (Some ''fg_heading''),
               DrawText (1108, 684) ''Generated by vardbg'' CaptionFont (Some ''fg_watermark'')],
              [DrawText (616, 352) ''vardbg'' IntroFont (Some ''fg_heading''),
               DrawText (1108, 684) ''Generated by vardbg'' CaptionFont (Some ''fg_watermark'')]]"
    by code_simp
  from intro_frames_watermarked [OF h, of env0] show ?thesis using h unfolding e by blast
qed

text \<open>
  C7 (as amended). For a path with a supported extension, construction succeeds. The
  intro is written if and only if the intro text is non-empty and the intro time is
  non-zero (the frame rate is not consulted); then exactly
  \<open>max(0, round(intro_time * fps))\<close> frames, with the product rounded to a double first,
  are handed to the encoder before any other frame, each holding the centred title on an otherwise blank frame (and the watermark
  if enabled). Otherwise no frame is written at construction.
\<close>

theorem init_intro_frames:
  assumes "select_encoder path c = Inr k"
  shows "(truthy (cfg_intro_text c) \<and> cfg_intro_time c \<noteq> 0 \<longrightarrow>
            (\<exists>r t. cfg_intro_text c = Some t \<and> init ev path c = Inr r
               \<and> enc_written (encoder r)
                    = replicate (nat (py_round (fl (cfg_intro_time c * cfg_fps c)))) (intro_canvas ev c t)))
       \<and> (\<not> (truthy (cfg_intro_text c) \<and> cfg_intro_time c \<noteq> 0) \<longrightarrow>
            init ev path c = Inr (fresh k c) \<and> enc_written (encoder (fresh k c)) = [])"
proof -
  have a: "\<exists>r t. cfg_intro_text c = Some t \<and> init ev path c = Inr r
               \<and> enc_written (encoder r)
                    = replicate (nat (py_round (fl (cfg_intro_time c * cfg_fps c)))) (intro_canvas ev c t)"
    if g: "truthy (cfg_intro_text c) \<and> cfg_intro_time c \<noteq> 0"
  proof -
    from g obtain t where t: "cfg_intro_text c = Some t"
      by (cases "cfg_intro_text c") (simp_all add: truthy_def)
    then have "cfg_intro_text (cfg (fresh k c)) = Some t" by (simp add: fresh_def)
    from write_intro_eq [OF this, of ev] obtain r where
      r: "write_intro ev (fresh k c) = Inr r"
         "enc_written (encoder r) = enc_written (encoder (fresh k c))
            @ replicate (nat (py_round (fl (cfg_intro_time (cfg (fresh k c)) * cfg_fps (cfg (fresh k c))))))
                (intro_canvas ev (cfg (fresh k c)) t)"
      by blast
    have "init ev path c = Inr r" using assms g r(1) by (simp add: init_def and_then_def)
    moreover have "enc_written (encoder r)
                    = replicate (nat (py_round (fl (cfg_intro_time c * cfg_fps c)))) (intro_canvas ev c t)"
      using r(2) by (simp add: fresh_def)
    ultimately show ?thesis using t by blast
  qed
  have b: "init ev path c = Inr (fresh k c) \<and> enc_written (encoder (fresh k c)) = []"
    if "\<not> (truthy (cfg_intro_text c) \<and> cfg_intro_time c \<noteq> 0)"
    using assms that by (auto simp: init_def and_then_def fresh_def)
  show ?thesis using a b by blast
qed

lemma select_mp4: "select_encoder ''out.mp4'' c = Inr (OpenCVEncoder ''out.mp4'' ''mp4v'' (cfg_fps c) (cfg_w c) (cfg_h c))"
  by (simp add: select_encoder_def ext_of_def path_suffix_def path_name_def lower_def lower_char_def Let_def)

theorem init_intro_frames_witness:
  "select_encoder ''out.mp4'' cfg_intro = Inr mp4
   \<and> truthy (cfg_intro_text cfg_intro) \<and> cfg_intro_time cfg_intro \<noteq> 0
   \<and> (\<exists>r t. cfg_intro_text cfg_intro = Some t \<and> init env0 ''out.mp4'' cfg_intro = Inr r
          \<and> enc_written (encoder r) = replicate 2 (intro_canvas env0 cfg_intro t))
   \<and> select_encoder ''out.mp4'' cfg0 = Inr mp4
   \<and> \<not> truthy (cfg_intro_text cfg0)
   \<and> init env0 ''out.mp4'' cfg0 = Inr (fresh mp4 cfg0)
   \<and> enc_written (encoder (fresh mp4 cfg0)) = []"
proof -
  have h1: "select_encoder ''out.mp4'' cfg_intro = Inr mp4"
    by (simp add: select_mp4 mp4_def cfg_intro_def cfg0_def)
  have h0: "select_encoder ''out.mp4'' cfg0 = Inr mp4"
    by (simp add: select_mp4 mp4_def cfg0_def)
  have g1: "truthy (cfg_intro_text cfg_intro) \<and> cfg_intro_time cfg_intro \<noteq> 0"
    by (simp add: truthy_def cfg_intro_def cfg0_def)
  have g0: "\<not> truthy (cfg_intro_text cfg0)"
    by (simp add: truthy_def cfg0_def)
  have n: "nat (py_round (fl (cfg_intro_time cfg_intro * cfg_fps cfg_intro))) = 2"
    by code_simp
  from init_intro_frames [OF h1, of env0] g1
  have a: "\<exists>r t. cfg_intro_text cfg_intro = Some t \<and> init env0 ''out.mp4'' cfg_intro = Inr r
          \<and> enc_written (encoder r) = replicate 2 (intro_canvas env0 cfg_intro t)"
    unfolding n by blast
  from init_intro_frames [OF h0, of env0] g0
  have b: "init env0 ''out.mp4'' cfg0 = Inr (fresh mp4 cfg0) \<and> enc_written (encoder (fresh mp4 cfg0)) = []"
    by blast
  show ?thesis using h1 h0 g1 g0 a b by blast
qed

text \<open>
  C7 as stated fails when the intro text is empty: the intro time and the frame rate are
  non-zero and \<open>round(0.5 * 4) = 2\<close>, yet construction hands no frame to the encoder.
\<close>

theorem init_intro_counterexample:
  "cfg_intro_time cfg_no_text \<noteq> 0 \<and> cfg_fps cfg_no_text \<noteq> 0
   \<and> py_round (fl (cfg_intro_time cfg_no_text * cfg_fps cfg_no_text)) = 2
   \<and> (case init env0 ''out.mp4'' cfg_no_text of
        Inl e \<Rightarrow> False
      | Inr r \<Rightarrow> enc_written (encoder r) = [])"
  by code_simp



section \<open>Claims about the frame life cycle\<close>

lemma close_eq:
  "close ev vs r = and_then (finish_frame ev vs r)
     (\<lambda>r1. Inr (r1\<lparr>encoder := (encoder r1)\<lparr>enc_stopped := Suc (enc_stopped (encoder r1))\<rparr>\<rparr>))"
  by (simp add: close_def)

text \<open>
  C2 (as amended). While no frame is open, \<^verbatim>\<open>finish_frame\<close> changes nothing and
  \<^verbatim>\<open>close\<close> only stops the encoder. On an open frame \<^verbatim>\<open>finish_frame\<close> without a
  variable state always succeeds; whenever \<^verbatim>\<open>finish_frame\<close> succeeds it hands exactly
  one frame to the encoder and the frame stays open (the renderer does not return to the
  state without a frame); and \<^verbatim>\<open>close\<close> on an open frame, when it succeeds, writes
  exactly one more frame and stops the encoder once.
\<close>

theorem finish_frame_lifecycle:
  "(frame r = None \<longrightarrow>
      finish_frame ev vs r = Inr r
      \<and> close ev vs r = Inr (r\<lparr>encoder := (encoder r)\<lparr>enc_stopped := Suc (enc_stopped (encoder r))\<rparr>\<rparr>))
   \<and> (frame r \<noteq> None \<longrightarrow>
        (\<exists>r'. finish_frame ev None r = Inr r')
        \<and> (\<forall>r'. finish_frame ev vs r = Inr r' \<longrightarrow>
              (\<exists>cv'. frame r' = Some cv' \<and> enc_written (encoder r') = enc_written (encoder r) @ [cv']))
        \<and> (\<forall>r'. close ev vs r = Inr r' \<longrightarrow>
              length (enc_written (encoder r')) = Suc (length (enc_written (encoder r)))
              \<and> enc_stopped (encoder r') = Suc (enc_stopped (encoder r))))"
proof -
  have a: "finish_frame ev vs r = Inr r
      \<and> close ev vs r = Inr (r\<lparr>encoder := (encoder r)\<lparr>enc_stopped := Suc (enc_stopped (encoder r))\<rparr>\<rparr>)"
    if "frame r = None"
    using that by (simp add: close_eq finish_frame_idle and_then_def)
  have b: "\<exists>r'. finish_frame ev None r = Inr r'" if "frame r \<noteq> None"
  proof -
    from that obtain cv where "frame r = Some cv" by blast
    then show ?thesis by (simp add: finish_frame_plain)
  qed
  have c: "\<exists>cv'. frame r' = Some cv' \<and> enc_written (encoder r') = enc_written (encoder r) @ [cv']"
    if "frame r \<noteq> None" and "finish_frame ev vs r = Inr r'" for r'
  proof -
    from that(1) obtain cv where "frame r = Some cv" by blast
    from finish_frame_open [OF this that(2)] show ?thesis by blast
  qed
  have d: "length (enc_written (encoder r')) = Suc (length (enc_written (encoder r)))
              \<and> enc_stopped (encoder r') = Suc (enc_stopped (encoder r))"
    if o: "frame r \<noteq> None" and cl: "close ev vs r = Inr r'" for r'
  proof -
    from o obtain cv where cv: "frame r = Some cv" by blast
    obtain r1 where f: "finish_frame ev vs r = Inr r1"
      using cl by (cases "finish_frame ev vs r") (simp_all add: close_eq and_then_def)
    have r': "r' = r1\<lparr>encoder := (encoder r1)\<lparr>enc_stopped := Suc (enc_stopped (encoder r1))\<rparr>\<rparr>"
      using cl f by (simp add: close_eq and_then_def)
    from finish_frame_open [OF cv f] obtain cv' where
      "enc_written (encoder r1) = enc_written (encoder r)
          @ [cv' @ (if cfg_watermark (cfg r) then [watermark_op ev (cfg r)] else [])]"
      "enc_stopped (encoder r1) = enc_stopped (encoder r)"
      by blast
    then show ?thesis unfolding r' by simp
  qed
  show ?thesis using a b c d by blast
qed

theorem finish_frame_lifecycle_witness:
  "frame (fresh mp4 cfg0) = None
   \<and> finish_frame env0 None (fresh mp4 cfg0) = Inr (fresh mp4 cfg0)
   \<and> frame started0 \<noteq> None
   \<and> finish_frame env0 None started0 = Inr (result_or started0 (finish_frame env0 None started0))
   \<and> (\<exists>cv'. frame (result_or started0 (finish_frame env0 None started0)) = Some cv'
         \<and> enc_written (encoder (result_or started0 (finish_frame env0 None started0)))
              = enc_written (encoder started0) @ [cv'])
   \<and> close env0 None started0 = Inr (result_or started0 (close env0 None started0))
   \<and> length (enc_written (encoder (result_or started0 (close env0 None started0))))
        = Suc (length (enc_written (encoder started0)))
   \<and> enc_stopped (encoder (result_or started0 (close env0 None started0)))
        = Suc (enc_stopped (encoder started0))"
proof -
  have i: "frame (fresh mp4 cfg0) = None" by (simp add: fresh_def)
  have o: "frame started0 \<noteq> None" by code_simp
  have f: "finish_frame env0 None started0 = Inr (result_or started0 (finish_frame env0 None started0))"
    by code_simp
  have c: "close env0 None started0 = Inr (result_or started0 (close env0 None started0))"
    by code_simp
  from finish_frame_lifecycle [of "fresh mp4 cfg0" env0 None] i
  have a: "finish_frame env0 None (fresh mp4 cfg0) = Inr (fresh mp4 cfg0)" by blast
  note t = finish_frame_lifecycle [of started0 env0 None]
  from t o f
  have b: "\<exists>cv'. frame (result_or started0 (finish_frame env0 None started0)) = Some cv'
         \<and> enc_written (encoder (result_or started0 (finish_frame env0 None started0)))
              = enc_written (encoder started0) @ [cv']"
    by blast
  from t o c
  have d: "length (enc_written (encoder (result_or started0 (close env0 None started0))))
        = Suc (length (enc_written (encoder started0)))
   \<and> enc_stopped (encoder (result_or started0 (close env0 None started0)))
        = Suc (enc_stopped (encoder started0))"
    by blast
  show ?thesis using i a o f b c d by blast
qed

text \<open>
  C2 as stated fails: after one \<^verbatim>\<open>start_frame\<close> and one \<^verbatim>\<open>finish_frame\<close> the frame is
  still open, and the final \<^verbatim>\<open>close\<close> writes it a second time, so this trace of a single
  step hands two frames to the encoder.
\<close>

theorem finish_frame_idle_counterexample:
  "enc_written (encoder started0) = []
   \<and> (case finish_frame env0 None started0 of
        Inl e \<Rightarrow> False
      | Inr r \<Rightarrow>
          frame r \<noteq> None
          \<and> length (enc_written (encoder r)) = 1
          \<and> (case close env0 None r of
               Inl e \<Rightarrow> False
             | Inr r' \<Rightarrow> length (enc_written (encoder r')) = 2))"
  by code_simp

section \<open>Claims about the variable panels\<close>

text \<open>
  What \<^verbatim>\<open>draw_variables\<close> does with the two positions on an open frame with calculated
  sizes. The source position is always the one recorded by \<^verbatim>\<open>draw_last_var\<close> in the
  same pass. The destination position is recorded in the same pass only if the pass over
  \<^verbatim>\<open>other_history\<close> reaches the referenced variable's last value; otherwise the
  renderer keeps the one it holds, and the connector is drawn to it, or the draw fails
  with \<^verbatim>\<open>TypeError\<close> if it holds none.
\<close>

lemma draw_variables_anchors:
  assumes "sizes r = Some s" and "frame r = Some cv"
  shows "(vs_ref st \<noteq> None \<and> \<not> ref_captured st \<and> ref_var r = None \<longrightarrow>
            draw_variables ev st r = Inl TypeError)
       \<and> (vs_ref st = None \<or> ref_captured st \<or> ref_var r \<noteq> None \<longrightarrow>
            (\<exists>r' ws. draw_variables ev st r = Inr r'
               \<and> last_var r' = Some (painter_pos ev (vars_box s) (last_var_writes st))
               \<and> (if ref_captured st
                   then \<exists>ws'. ref_var r' = Some (irepr_pos ev (ovars_box s) ws')
                   else ref_var r' = ref_var r)
               \<and> (case vs_ref st of
                    None \<Rightarrow> frame r' = Some (cv @ painted_vars s st ws)
                  | Some v \<Rightarrow>
                      \<exists>dst. ref_var r' = Some dst
                        \<and> frame r' = Some (cv @ painted_vars s st ws
                             @ [connector ev (cfg r) (vs_color st)
                                  (painter_pos ev (vars_box s) (last_var_writes st)) dst]))))"
proof -
  let ?src = "painter_pos ev (vars_box s) (last_var_writes st)"
  obtain ws rv where w:
    "other_vars_loop ev (ovars_box s) st (enumerate 0 (vs_other_history st)) ([], ref_var r) = (ws, rv)"
    by (cases "other_vars_loop ev (ovars_box s) st (enumerate 0 (vs_other_history st)) ([], ref_var r)")
  note eq = draw_variables_eq [OF assms w]
  have keep: "rv = ref_var r" if "\<not> ref_captured st"
  proof -
    from that have "\<forall>e \<in> set (enumerate 0 (vs_other_history st)). \<not> captures st e"
      by (simp add: ref_captured_enumerate)
    from other_vars_loop_keeps [OF this, of ev "ovars_box s" "[]" "ref_var r"] w
    show ?thesis by simp
  qed
  have sets: "\<exists>ws'. rv = Some (irepr_pos ev (ovars_box s) ws')" if "ref_captured st"
  proof -
    from that have "\<exists>e \<in> set (enumerate 0 (vs_other_history st)). captures st e"
      by (simp add: ref_captured_enumerate)
    then have "(\<exists>ws'. ref_var r = Some (irepr_pos ev (ovars_box s) ws'))
                 \<or> (\<exists>e \<in> set (enumerate 0 (vs_other_history st)). captures st e)"
      by blast
    from other_vars_loop_sets [OF this, of "[]"] w show ?thesis by simp
  qed
  have a: "draw_variables ev st r = Inl TypeError"
    if "vs_ref st \<noteq> None \<and> \<not> ref_captured st \<and> ref_var r = None"
    using that keep unfolding eq by simp
  have b: "\<exists>r' ws. draw_variables ev st r = Inr r'
               \<and> last_var r' = Some ?src
               \<and> (if ref_captured st
                   then \<exists>ws'. ref_var r' = Some (irepr_pos ev (ovars_box s) ws')
                   else ref_var r' = ref_var r)
               \<and> (case vs_ref st of
                    None \<Rightarrow> frame r' = Some (cv @ painted_vars s st ws)
                  | Some v \<Rightarrow>
                      \<exists>dst. ref_var r' = Some dst
                        \<and> frame r' = Some (cv @ painted_vars s st ws
                             @ [connector ev (cfg r) (vs_color st) ?src dst]))"
    if g: "vs_ref st = None \<or> ref_captured st \<or> ref_var r \<noteq> None"
  proof -
    have anchor: "if ref_captured st
                   then \<exists>ws'. rv = Some (irepr_pos ev (ovars_box s) ws')
                   else rv = ref_var r"
      using keep sets by simp
    show ?thesis
    proof (cases "vs_ref st")
      case None
      let ?r' = "r\<lparr>last_var := Some ?src, ref_var := rv, frame := Some (cv @ painted_vars s st ws)\<rparr>"
      have "draw_variables ev st r = Inr ?r'" unfolding eq using None by simp
      moreover have "last_var ?r' = Some ?src" by simp
      moreover have "if ref_captured st
                   then \<exists>ws'. ref_var ?r' = Some (irepr_pos ev (ovars_box s) ws')
                   else ref_var ?r' = ref_var r"
        using anchor by simp
      moreover have "frame ?r' = Some (cv @ painted_vars s st ws)" by simp
      ultimately show ?thesis unfolding None by (intro exI [of _ ?r'] exI [of _ ws]) simp
    next
      case (Some v)
      have "rv \<noteq> None" using g Some keep sets by (cases "ref_captured st") auto
      then obtain dst where dst: "rv = Some dst" by blast
      let ?r' = "r\<lparr>last_var := Some ?src, ref_var := rv,
                   frame := Some (cv @ painted_vars s st ws @ [connector ev (cfg r) (vs_color st) ?src dst])\<rparr>"
      have "draw_variables ev st r = Inr ?r'" unfolding eq using Some dst by simp
      moreover have "last_var ?r' = Some ?src" by simp
      moreover have "if ref_captured st
                   then \<exists>ws'. ref_var ?r' = Some (irepr_pos ev (ovars_box s) ws')
                   else ref_var ?r' = ref_var r"
        using anchor by simp
      moreover have "\<exists>dst'. ref_var ?r' = Some dst'
                        \<and> frame ?r' = Some (cv @ painted_vars s st ws
                             @ [connector ev (cfg r) (vs_color st) ?src dst'])"
        using dst by simp
      ultimately show ?thesis unfolding Some by (intro exI [of _ ?r'] exI [of _ ws]) simp
    qed
  qed
  show ?thesis using a b by blast
qed

text \<open>
  C4. Evaluation of two frames. The positions are introduced in the source as per-frame
  positions, and the connector should be drawn only when both were recorded in the
  frame's own pass. The first frame is finished with \<open>st_shown\<close>, whose pass records the
  destination \<open>(878, 297)\<close>. The second frame is finished with \<open>st_hidden\<close>: its pass
  records no destination, yet the frame handed to the encoder holds a connector, drawn
  to the position kept from the first frame. Had \<open>st_hidden\<close> come first, with nothing
  kept, finishing the frame would have failed with \<^verbatim>\<open>TypeError\<close>.
\<close>

theorem connector_stale_anchor:
  "\<not> ref_captured st_hidden
   \<and> ref_var started0 = None
   \<and> finish_frame env0 (Some st_hidden) started0 = Inl TypeError
   \<and> ref_var second0 = Some (878, 297)
   \<and> (case finish_frame env0 (Some st_hidden) second0 of
        Inl e \<Rightarrow> False
      | Inr r \<Rightarrow>
          ref_var r = Some (878, 297)
          \<and> connector env0 cfg0 ''red'' (875, 56) (878, 297) \<in> set (last (enc_written (encoder r))))"
  by code_simp

lemma other_vars_loop_ignored:
  "hist_ignored vals \<Longrightarrow>
     other_vars_loop ev box st ((idx, var, vals) # rest) acc = other_vars_loop ev box st rest acc"
  by (cases acc) simp

text \<open>
  C6. Evaluation of the pass over \<^verbatim>\<open>other_history\<close> where the first variable \<open>a\<close> is
  flagged ignored and the second variable \<open>b\<close> is not: nothing is written for \<open>a\<close>, and
  the separator is written before \<open>b\<close> although \<open>b\<close> is the first variable rendered,
  because the test is on the position in \<^verbatim>\<open>other_history\<close>.
\<close>

theorem other_vars_separator_first_ignored:
  "other_vars_loop env0 (ovars_box (the (sizes started0))) st_first_ignored
     (enumerate 0 (vs_other_history st_first_ignored)) ([], None)
   = ([PWrite separator False None None, PWrite ''b:'' False None None,
       PWrite bullet False None None, PIRepr ''2'' None False None], None)"
  by code_simp

end
